theory Spec2Isabelle
  imports Complex_Main "HOL-Library.AList" "HOL-Library.Product_Lexorder"
    "HOL-Library.Option_ord" "HOL-Library.Char_ord" "HOL-Library.List_Lexorder"
begin

section \<open>Recurring contracts: consumptions and invoicing (contract.py)\<close>

text \<open>
  The module builds periodic consumptions of a contract from a recurrence rule and turns
  consumptions into invoice lines grouped into invoices. The embedding below follows
  \<^verbatim>\<open>src/contract.py\<close>. Exceptions are values of type \<open>error\<close>; a function that can
  raise returns \<open>error + 'a\<close> with \<open>Inl\<close> for the exception.
\<close>

datatype error =
    TypeError
  | AttributeError
  | OverflowError
  | ZeroDivisionError
  | UserError string

subsection \<open>Dates\<close>

text \<open>
  A \<^verbatim>\<open>datetime.date\<close> is its proleptic Gregorian ordinal (\<^verbatim>\<open>date.toordinal()\<close>,
  day 1 is 0001-01-01). Every \<^verbatim>\<open>datetime\<close> of the module comes from \<open>todatetime\<close>,
  which attaches midnight, and only whole days are ever added, so a datetime is the same
  ordinal. Comparison of dates is comparison of ordinals. The conversions between
  ordinals and (year, month, day) are those of the standard library's
  \<^verbatim>\<open>datetime.py\<close>.
\<close>

type_synonym date = int

definition MAXYEAR :: int where
  "MAXYEAR = 9999"

definition max_ordinal :: int where
  "max_ordinal = 3652059"

definition is_leap :: "int \<Rightarrow> bool" where
  "is_leap year \<longleftrightarrow> year mod 4 = 0 \<and> (year mod 100 \<noteq> 0 \<or> year mod 400 = 0)"

definition DAYS_IN_MONTH :: "int list" where
  "DAYS_IN_MONTH = [-1, 31, 28, 31, 30, 31, 30, 31, 31, 30, 31, 30, 31]"

definition DAYS_BEFORE_MONTH :: "int list" where
  "DAYS_BEFORE_MONTH = [-1, 0, 31, 59, 90, 120, 151, 181, 212, 243, 273, 304, 334]"

definition days_before_year :: "int \<Rightarrow> int" where
  "days_before_year year =
     (let y = year - 1 in y * 365 + y div 4 - y div 100 + y div 400)"

definition days_in_month :: "int \<Rightarrow> int \<Rightarrow> int" where
  "days_in_month year month =
     (if month = 2 \<and> is_leap year then 29 else DAYS_IN_MONTH ! nat month)"

definition days_before_month :: "int \<Rightarrow> int \<Rightarrow> int" where
  "days_before_month year month =
     DAYS_BEFORE_MONTH ! nat month + (if month > 2 \<and> is_leap year then 1 else 0)"

definition ymd2ord :: "int \<Rightarrow> int \<Rightarrow> int \<Rightarrow> date" where
  "ymd2ord year month day = days_before_year year + days_before_month year month + day"

definition ord2ymd :: "date \<Rightarrow> int \<times> int \<times> int" where
  "ord2ymd ordinal =
     (let n = ordinal - 1;
          n400 = n div 146097; na = n mod 146097;
          n100 = na div 36524; nb = na mod 36524;
          n4 = nb div 1461; nc = nb mod 1461;
          n1 = nc div 365; nd = nc mod 365;
          year = n400 * 400 + 1 + n100 * 100 + n4 * 4 + n1
      in if n1 = 4 \<or> n100 = 4 then (year - 1, 12, 31)
         else
           let leapyear = (n1 = 3 \<and> (n4 \<noteq> 24 \<or> n100 = 3));
               month = (nd + 50) div 32;
               preceding = DAYS_BEFORE_MONTH ! nat month
                             + (if month > 2 \<and> leapyear then 1 else 0)
           in if preceding > nd
              then (year, month - 1,
                    nd - (preceding - (DAYS_IN_MONTH ! nat (month - 1)
                           + (if month - 1 = 2 \<and> leapyear then 1 else 0))) + 1)
              else (year, month, nd - preceding + 1))"

text \<open>
  \<^verbatim>\<open>d + relativedelta(days=n)\<close>: the result must be a date of the years 1 to 9999,
  otherwise Python raises OverflowError.
\<close>

definition add_days :: "date \<Rightarrow> int \<Rightarrow> error + date" where
  "add_days d n = (if 1 \<le> d + n \<and> d + n \<le> max_ordinal then Inr (d + n) else Inl OverflowError)"

definition todatetime :: "date \<Rightarrow> date" where
  "todatetime d = d"

subsection \<open>Recurrence rules (dateutil.rrule)\<close>

text \<open>
  The module only builds rules from a frequency, a start and an interval, so the
  generator of \<^verbatim>\<open>dateutil.rrule\<close> is modelled for exactly these rules: a daily rule steps
  by \<open>interval\<close> days, a weekly rule by \<open>7 * interval\<close> days, a monthly rule visits every
  \<open>interval\<close>-th month and yields the day of the month of \<open>dtstart\<close> where the month has
  that day (a month without it is skipped), a yearly rule does the same with years and
  the month and day of \<open>dtstart\<close>. The generator stops when the year passes 9999.
  \<open>rr_cand r k\<close> is what the \<open>k\<close>-th round of the generator yields.

  The module never passes an interval of 0 (\<open>rrule_values\<close> drops it and the default 1
  applies); \<open>rr_step\<close> reads the interval as at least 1.
\<close>

datatype freq = DAILY | WEEKLY | MONTHLY | YEARLY

record rrule =
  rr_freq :: freq
  rr_dtstart :: date
  rr_interval :: nat

datatype cand = Stop | Skip | Occ date

definition rr_step :: "rrule \<Rightarrow> int" where
  "rr_step r = int (max 1 (rr_interval r))"

definition rr_cand :: "rrule \<Rightarrow> nat \<Rightarrow> cand" where
  "rr_cand r k =
     (case ord2ymd (rr_dtstart r) of (y, m, d) \<Rightarrow>
        let n = rr_step r * int k in
        case rr_freq r of
          DAILY \<Rightarrow>
            (if rr_dtstart r + n > max_ordinal then Stop else Occ (rr_dtstart r + n))
        | WEEKLY \<Rightarrow>
            (if rr_dtstart r + 7 * n > max_ordinal then Stop
             else Occ (rr_dtstart r + 7 * n))
        | MONTHLY \<Rightarrow>
            (let i = y * 12 + (m - 1) + n; y' = i div 12; m' = i mod 12 + 1
             in if y' > MAXYEAR then Stop
                else if d \<le> days_in_month y' m' then Occ (ymd2ord y' m' d)
                else Skip)
        | YEARLY \<Rightarrow>
            (let y' = y + n
             in if y' > MAXYEAR then Stop
                else if d \<le> days_in_month y' m then Occ (ymd2ord y' m d)
                else Skip))"

text \<open>A round number from which on the generator has stopped.\<close>

definition rr_bound :: "rrule \<Rightarrow> nat" where
  "rr_bound r =
     (case ord2ymd (rr_dtstart r) of (y, m, d) \<Rightarrow>
        case rr_freq r of
          DAILY \<Rightarrow> nat (max_ordinal - rr_dtstart r) + 1
        | WEEKLY \<Rightarrow> nat (max_ordinal - rr_dtstart r) + 1
        | MONTHLY \<Rightarrow> nat (MAXYEAR * 12 + 11 - (y * 12 + (m - 1))) + 1
        | YEARLY \<Rightarrow> nat (MAXYEAR - y) + 1)"

lemma rr_step_pos: "1 \<le> rr_step r"
  by (simp add: rr_step_def)

lemma rr_step_mult_ge: "int k \<le> rr_step r * int k"
  using rr_step_pos [of r] by (simp add: mult_le_cancel_right1)

lemma rr_cand_bound: "rr_cand r k \<noteq> Stop \<Longrightarrow> k < rr_bound r"
proof -
  assume a: "rr_cand r k \<noteq> Stop"
  obtain y m d where ymd: "ord2ymd (rr_dtstart r) = (y, m, d)"
    by (cases "ord2ymd (rr_dtstart r)") auto
  have ge: "int k \<le> rr_step r * int k" by (rule rr_step_mult_ge)
  show ?thesis
  proof (cases "rr_freq r")
    case DAILY
    with a ymd ge show ?thesis
      by (auto simp: rr_cand_def rr_bound_def Let_def split: if_splits)
  next
    case WEEKLY
    with a ymd ge show ?thesis
      by (auto simp: rr_cand_def rr_bound_def Let_def split: if_splits)
  next
    case MONTHLY
    with a ymd have "(y * 12 + (m - 1) + rr_step r * int k) div 12 \<le> MAXYEAR"
      by (auto simp: rr_cand_def Let_def split: if_splits)
    then have "y * 12 + (m - 1) + rr_step r * int k \<le> MAXYEAR * 12 + 11"
      by (simp add: MAXYEAR_def)
    with ge MONTHLY ymd show ?thesis
      by (auto simp: rr_bound_def)
  next
    case YEARLY
    with a ymd ge show ?thesis
      by (auto simp: rr_cand_def rr_bound_def Let_def split: if_splits)
  qed
qed

lemma rr_cand_decr: "rr_cand r k \<noteq> Stop \<Longrightarrow> rr_bound r - Suc k < rr_bound r - k"
  using rr_cand_bound [of r k] by arith

text \<open>
  \<^verbatim>\<open>rrule.between(after, before)\<close> with \<^verbatim>\<open>inc=False\<close>: the generator is read in
  order; the loop breaks at the first occurrence \<open>\<ge> before\<close>; occurrences are dropped
  until the first one \<open>> after\<close>, and kept from then on.
\<close>

function rr_between_loop :: "rrule \<Rightarrow> date \<Rightarrow> date \<Rightarrow> bool \<Rightarrow> nat \<Rightarrow> date list" where
  "rr_between_loop r after before started k =
     (case rr_cand r k of
        Stop \<Rightarrow> []
      | Skip \<Rightarrow> rr_between_loop r after before started (Suc k)
      | Occ i \<Rightarrow>
          if i \<ge> before then []
          else if \<not> started then
            (if i > after then i # rr_between_loop r after before True (Suc k)
             else rr_between_loop r after before False (Suc k))
          else i # rr_between_loop r after before started (Suc k))"
  by pat_completeness auto
termination
  by (relation "measure (\<lambda>(r, a, b, s, k). rr_bound r - k)") (simp_all add: rr_cand_decr)

declare rr_between_loop.simps [simp del]

definition rr_between :: "rrule \<Rightarrow> date \<Rightarrow> date \<Rightarrow> date list" where
  "rr_between r after before = rr_between_loop r after before False 0"

text \<open>
  \<^verbatim>\<open>rrule.after(dt)\<close> with \<^verbatim>\<open>inc=False\<close>: the first occurrence \<open>> dt\<close>, or
  \<^verbatim>\<open>None\<close> when the generator ends first.
\<close>

function rr_after_loop :: "rrule \<Rightarrow> date \<Rightarrow> nat \<Rightarrow> date option" where
  "rr_after_loop r dt k =
     (case rr_cand r k of
        Stop \<Rightarrow> None
      | Skip \<Rightarrow> rr_after_loop r dt (Suc k)
      | Occ i \<Rightarrow> if i > dt then Some i else rr_after_loop r dt (Suc k))"
  by pat_completeness auto
termination
  by (relation "measure (\<lambda>(r, dt, k). rr_bound r - k)") (simp_all add: rr_cand_decr)

declare rr_after_loop.simps [simp del]

definition rr_after :: "rrule \<Rightarrow> date \<Rightarrow> date option" where
  "rr_after r dt = rr_after_loop r dt 0"

subsection \<open>Records of the module\<close>

text \<open>
  Records of other modules are referred to by their ids. A party carries what the
  module reads from it; its tax rule is the host's \<^verbatim>\<open>TaxRule.apply\<close> at the empty
  pattern, a function from a tax (or \<^verbatim>\<open>None\<close>) to the list of tax ids it returns
  (the empty list for a falsy result).
\<close>

record party =
  party_id :: nat
  customer_tax_rule :: "(nat option \<Rightarrow> nat list) option"
  address_get_invoice :: "nat option"
  customer_payment_term :: "nat option"
  account_receivable :: "nat option"

record product =
  product_id :: nat
  default_uom_rounding :: rat
  customer_taxes_used :: "nat list"
  account_revenue_used :: "nat option"

record contract_service =
  service_id :: nat
  service_product :: product

record contract_line =
  line_id :: nat
  service :: "contract_service option"
  description :: string
  unit_price :: rat

datatype freq_selection = daily | weekly | monthly | yearly

datatype contract_state = draft | validated | cancel

text \<open>
  \<open>interval\<close> is the Integer field of \<open>RRuleMixin\<close>, \<open>None\<close> when unset; a recurrence
  interval is a count of periods and is modelled as a natural number.
\<close>

record contract =
  contract_id :: nat
  freq :: "freq_selection option"
  interval :: "nat option"
  company :: nat
  currency :: nat
  party :: party
  start_date :: date
  end_date :: "date option"
  start_period_date :: date
  first_invoice_date :: "date option"
  lines :: "contract_line list"
  state :: contract_state

text \<open>
  A row of \<^verbatim>\<open>contract.consumption\<close>. None of its date fields is required. The table
  is a list of rows with their ids.
\<close>

record consumption =
  contract_line :: nat
  invoice_line :: "nat option"
  init_period_date :: "date option"
  end_period_date :: "date option"
  cons_start_date :: "date option"
  cons_end_date :: "date option"
  invoice_date :: "date option"

type_synonym consumption_table = "(nat \<times> consumption) list"

subsection \<open>RRuleMixin and Contract: the recurrence rule\<close>

definition freq_mapping :: "freq_selection \<Rightarrow> freq" where
  "freq_mapping v = (case v of daily \<Rightarrow> DAILY | weekly \<Rightarrow> WEEKLY
                     | monthly \<Rightarrow> MONTHLY | yearly \<Rightarrow> YEARLY)"

text \<open>
  \<open>rrule_values\<close>: the keyword arguments for the rule. A field whose value is falsy
  (\<^verbatim>\<open>None\<close>, or an interval of 0) is left out; \<open>Contract.rrule_values\<close> adds
  \<open>dtstart\<close>. The dictionary is the triple of its possible entries.
\<close>

definition rrule_values :: "contract \<Rightarrow> freq option \<times> nat option \<times> date" where
  "rrule_values self =
     (map_option freq_mapping (freq self),
      (case interval self of None \<Rightarrow> None | Some n \<Rightarrow> if n = 0 then None else Some n),
      todatetime (start_period_date self))"

text \<open>
  The constructor \<^verbatim>\<open>rrule(freq, dtstart=None, interval=1, ...)\<close>: \<open>freq\<close> is a
  required argument, and a call without it raises TypeError.
\<close>

definition rrule_new :: "freq option \<Rightarrow> nat option \<Rightarrow> date \<Rightarrow> error + rrule" where
  "rrule_new f i dtstart =
     (case f of
        None \<Rightarrow> Inl TypeError
      | Some fr \<Rightarrow>
          Inr \<lparr>rr_freq = fr, rr_dtstart = dtstart,
               rr_interval = (case i of None \<Rightarrow> 1 | Some n \<Rightarrow> n)\<rparr>)"

definition contract_rrule :: "contract \<Rightarrow> error + rrule" where
  "contract_rrule self = (case rrule_values self of (f, i, dtstart) \<Rightarrow> rrule_new f i dtstart)"

text \<open>
  \<open>get_invoice_date\<close>: a new rule with the contract's frequency, started at the last
  invoice date, with the default interval; \<^verbatim>\<open>.date()\<close> on \<^verbatim>\<open>None\<close> raises
  AttributeError.
\<close>

definition get_invoice_date :: "contract \<Rightarrow> date \<Rightarrow> error + date" where
  "get_invoice_date self last_invoice_date =
     (let last = todatetime last_invoice_date in
      case contract_rrule self of
        Inl e \<Rightarrow> Inl e
      | Inr sr \<Rightarrow>
          (case rrule_new (Some (rr_freq sr)) None last of
             Inl e \<Rightarrow> Inl e
           | Inr r \<Rightarrow>
               (case rr_after r last of
                  None \<Rightarrow> Inl AttributeError
                | Some d \<Rightarrow> Inr d)))"

subsection \<open>ContractLine: last consumption dates\<close>

text \<open>
  \<^verbatim>\<open>Max\<close> of SQL over a column: \<^verbatim>\<open>NULL\<close>s are ignored, and the maximum of no value
  is \<^verbatim>\<open>NULL\<close>.
\<close>

definition sql_max :: "date option list \<Rightarrow> date option" where
  "sql_max xs =
     fold (\<lambda>x acc. case x of None \<Rightarrow> acc
                     | Some v \<Rightarrow> (case acc of None \<Rightarrow> Some v | Some a \<Rightarrow> Some (max a v)))
       xs None"

definition get_last_consumption_date :: "consumption_table \<Rightarrow> nat \<Rightarrow> date option" where
  "get_last_consumption_date tbl lid =
     sql_max (map (end_period_date \<circ> snd) (filter (\<lambda>row. contract_line (snd row) = lid) tbl))"

definition get_last_consumption_invoice_date :: "consumption_table \<Rightarrow> nat \<Rightarrow> date option" where
  "get_last_consumption_invoice_date tbl lid =
     sql_max (map (invoice_date \<circ> snd) (filter (\<lambda>row. contract_line (snd row) = lid) tbl))"

text \<open>
  The two Function fields of a line. Both are declared with the getter
  \<^verbatim>\<open>'get_last_consumption_date'\<close>, which does not look at the field's name.
\<close>

definition last_consumption_date :: "consumption_table \<Rightarrow> contract_line \<Rightarrow> date option" where
  "last_consumption_date tbl line = get_last_consumption_date tbl (line_id line)"

definition last_consumption_invoice_date ::
    "consumption_table \<Rightarrow> contract_line \<Rightarrow> date option" where
  "last_consumption_invoice_date tbl line = get_last_consumption_date tbl (line_id line)"

definition get_consumption ::
    "contract_line \<Rightarrow> date \<Rightarrow> date \<Rightarrow> date \<Rightarrow> date \<Rightarrow> date \<Rightarrow> consumption" where
  "get_consumption self start_date' end_date' invoice_date' start_period finish_period =
     \<lparr>contract_line = line_id self, invoice_line = None,
      init_period_date = Some start_period, end_period_date = Some finish_period,
      cons_start_date = Some start_date', cons_end_date = Some end_date',
      invoice_date = Some invoice_date'\<rparr>"

subsection \<open>Contract.get_consumptions and Contract.consume\<close>

text \<open>
  The body of the inner loop of \<open>get_consumptions\<close>, over the occurrences that
  \<open>between\<close> returned. The loop carries \<open>start\<close>, \<open>last_invoice_date\<close> and
  \<open>last_consumption_date\<close>. \<open>end_contract\<close> is \<^verbatim>\<open>None\<close> in the source, so the two
  branches on it never run.
\<close>

fun consumptions_loop ::
    "contract \<Rightarrow> contract_line \<Rightarrow> date list \<Rightarrow> date \<Rightarrow> date option \<Rightarrow> date option
      \<Rightarrow> error + consumption list" where
  "consumptions_loop self line [] start last_invoice_date last_cons_date = Inr []"
| "consumptions_loop self line (occ # rest) start last_invoice_date last_cons_date =
     (case add_days occ (- 1) of
        Inl e \<Rightarrow> Inl e
      | Inr date1 \<Rightarrow>
          (case (case last_invoice_date of
                   Some l \<Rightarrow> get_invoice_date self l
                 | None \<Rightarrow>
                     Inr (case first_invoice_date self of Some f \<Rightarrow> f | None \<Rightarrow> date1)) of
             Inl e \<Rightarrow> Inl e
           | Inr inv_date \<Rightarrow>
               let finish_date = date1;
                   end_contract = (None :: date option);
                   date2 = (case end_contract of
                              Some ec \<Rightarrow> if ec \<le> date1 then ec else date1
                            | None \<Rightarrow> date1);
                   start_period = (if last_cons_date = None then start_period_date self
                                   else start);
                   start1 = (if last_cons_date = None then start_date self else start);
                   c = get_consumption line start1 date2 inv_date start_period finish_date
               in (case add_days date2 1 of
                     Inl e \<Rightarrow> Inl e
                   | Inr date3 \<Rightarrow>
                       (case consumptions_loop self line rest date3 (Some inv_date)
                               (Some date3) of
                          Inl e \<Rightarrow> Inl e
                        | Inr cs \<Rightarrow> Inr (c # cs)))))"

text \<open>
  One round of the outer loop: the consumptions of one line. With a last consumption
  date, one day is added to it, and one more day for \<open>start\<close>.
\<close>

definition line_consumptions ::
    "consumption_table \<Rightarrow> contract \<Rightarrow> date \<Rightarrow> contract_line \<Rightarrow> error + consumption list" where
  "line_consumptions tbl self end_dt line =
     (case (case last_consumption_date tbl line of
              None \<Rightarrow> Inr (None, start_period_date self)
            | Some l \<Rightarrow>
                (case add_days (todatetime l) 1 of
                   Inl e \<Rightarrow> Inl e
                 | Inr l1 \<Rightarrow>
                     (case add_days l1 1 of
                        Inl e \<Rightarrow> Inl e
                      | Inr s \<Rightarrow> Inr (Some l1, s)))) of
        Inl e \<Rightarrow> Inl e
      | Inr (last_cons_date, start) \<Rightarrow>
          let last_invoice_date = last_consumption_invoice_date tbl line in
          (case contract_rrule self of
             Inl e \<Rightarrow> Inl e
           | Inr r \<Rightarrow>
               consumptions_loop self line (rr_between r (todatetime start) end_dt)
                 start last_invoice_date last_cons_date))"

fun lines_loop ::
    "consumption_table \<Rightarrow> contract \<Rightarrow> date \<Rightarrow> contract_line list \<Rightarrow> error + consumption list"
  where
  "lines_loop tbl self end_dt [] = Inr []"
| "lines_loop tbl self end_dt (line # rest) =
     (case line_consumptions tbl self end_dt line of
        Inl e \<Rightarrow> Inl e
      | Inr cs \<Rightarrow>
          (case lines_loop tbl self end_dt rest of
             Inl e \<Rightarrow> Inl e
           | Inr cs' \<Rightarrow> Inr (cs @ cs')))"

text \<open>
  \<open>get_consumptions\<close>; \<open>today\<close> is what \<^verbatim>\<open>Date.today()\<close> of the host returns.
\<close>

definition get_consumptions ::
    "date \<Rightarrow> consumption_table \<Rightarrow> contract \<Rightarrow> date option \<Rightarrow> error + consumption list" where
  "get_consumptions today tbl self end_date' =
     (let end_dt = todatetime (case end_date' of None \<Rightarrow> today | Some d \<Rightarrow> d)
      in lines_loop tbl self end_dt (lines self))"

text \<open>\<^verbatim>\<open>ContractConsumption.create\<close>: the new rows get fresh ids and join the table.\<close>

definition fresh_id :: "nat list \<Rightarrow> nat" where
  "fresh_id ids = Suc (fold max ids 0)"

definition create_rows :: "(nat \<times> 'a) list \<Rightarrow> 'a list \<Rightarrow> (nat \<times> 'a) list" where
  "create_rows tbl vals = zip [fresh_id (map fst tbl) ..< fresh_id (map fst tbl) + length vals] vals"

fun contracts_loop ::
    "date \<Rightarrow> consumption_table \<Rightarrow> contract list \<Rightarrow> date \<Rightarrow> error + consumption list" where
  "contracts_loop today tbl [] d = Inr []"
| "contracts_loop today tbl (c # cs) d =
     (case get_consumptions today tbl c (Some d) of
        Inl e \<Rightarrow> Inl e
      | Inr xs \<Rightarrow>
          (case contracts_loop today tbl cs d of
             Inl e \<Rightarrow> Inl e
           | Inr ys \<Rightarrow> Inr (xs @ ys)))"

text \<open>
  \<open>consume\<close>: the day is added to \<open>date\<close> before anything else, also when \<open>date\<close> is
  \<^verbatim>\<open>None\<close>, where the addition raises TypeError. The result is the created rows and
  the table after the creation.
\<close>

definition consume ::
    "date \<Rightarrow> consumption_table \<Rightarrow> contract list \<Rightarrow> date option
      \<Rightarrow> error + (consumption_table \<times> consumption_table)" where
  "consume today tbl contracts date' =
     (case date' of
        None \<Rightarrow> Inl TypeError
      | Some d0 \<Rightarrow>
          (case add_days d0 1 of
             Inl e \<Rightarrow> Inl e
           | Inr d \<Rightarrow>
               (case contracts_loop today tbl contracts d of
                  Inl e \<Rightarrow> Inl e
                | Inr to_create \<Rightarrow>
                    let created = create_rows tbl to_create
                    in Inr (created, tbl @ created))))"

subsection \<open>Contract.check_start_date and Contract.validate\<close>

text \<open>
  \<^verbatim>\<open>hasattr(self, 'rrule')\<close> evaluates the property; in the Python 2 this module runs
  on, \<^verbatim>\<open>hasattr\<close> answers \<^verbatim>\<open>False\<close> when the property raises, and the check
  returns \<^verbatim>\<open>None\<close>. Otherwise the result is \<^verbatim>\<open>True\<close> or the user error.
\<close>

definition check_start_date :: "contract \<Rightarrow> error + bool option" where
  "check_start_date self =
     (case contract_rrule self of
        Inl e \<Rightarrow> Inr None
      | Inr r \<Rightarrow>
          (case rr_after r (todatetime (start_period_date self)) of
             None \<Rightarrow> Inl AttributeError
           | Some d \<Rightarrow>
               if start_date self \<ge> start_period_date self \<and> start_date self < d
               then Inr (Some True)
               else Inl (UserError ''start_date_not_valid'')))"

fun validate :: "contract list \<Rightarrow> error + unit" where
  "validate [] = Inr ()"
| "validate (c # cs) =
     (case check_start_date c of Inl e \<Rightarrow> Inl e | Inr _ \<Rightarrow> validate cs)"

subsection \<open>ContractConsumption: invoice lines\<close>

text \<open>
  The invoice line a consumption builds. The description is kept as the three arguments
  of its format string; the unit is kept as its rounding.
\<close>

record invoice_line =
  il_type :: string
  il_origin :: nat
  il_company :: nat
  il_currency :: nat
  il_product :: "product option"
  il_description :: "string \<times> date option \<times> date option"
  il_unit_price :: rat
  il_party :: party
  il_unit :: "rat option"
  il_account :: "nat option"
  il_taxes :: "nat list"
  il_invoice_type :: string
  il_quantity :: rat

record invoice =
  inv_party :: nat
  inv_company :: nat
  inv_currency :: nat
  inv_type :: string
  inv_invoice_date :: "date option"
  inv_invoice_address :: "nat option"
  inv_journal :: "nat option"
  inv_payment_term :: "nat option"
  inv_account :: "nat option"
  inv_lines :: "nat list"

text \<open>
  The tables the invoicing reads and writes. \<open>db_properties\<close> answers
  \<^verbatim>\<open>Property.get('account_revenue', model)\<close> by the model's name; a journal is its
  id and its type.
\<close>

record database =
  db_contracts :: "contract list"
  db_consumptions :: consumption_table
  db_invoice_lines :: "(nat \<times> invoice_line) list"
  db_invoices :: "(nat \<times> invoice) list"
  db_journals :: "(nat \<times> string) list"
  db_properties :: "(string \<times> nat) list"

text \<open>The contract line a consumption refers to, with the contract that owns it.\<close>

definition browse_line :: "database \<Rightarrow> nat \<Rightarrow> (contract \<times> contract_line) option" where
  "browse_line db lid =
     List.find (\<lambda>cl. line_id (snd cl) = lid)
       (concat (map (\<lambda>c. map (Pair c) (lines c)) (db_contracts db)))"

definition get_taxes :: "product \<Rightarrow> party \<Rightarrow> nat list" where
  "get_taxes prd pty =
     (case customer_tax_rule pty of
        None \<Rightarrow> customer_taxes_used prd
      | Some rule \<Rightarrow> concat (map (\<lambda>tax. rule (Some tax)) (customer_taxes_used prd)) @ rule None)"

fun property_account :: "database \<Rightarrow> string list \<Rightarrow> nat option" where
  "property_account db [] = None"
| "property_account db (model # rest) =
     (case map_of (db_properties db) model of
        Some a \<Rightarrow> Some a
      | None \<Rightarrow> property_account db rest)"

text \<open>
  The quantity: \<^verbatim>\<open>total_seconds()\<close> of a difference of dates is 86400 times the
  number of days; a subtraction with \<^verbatim>\<open>None\<close> raises TypeError and a zero period
  raises ZeroDivisionError. Python divides in binary floating point; the quotient is
  modelled as the exact rational, which agrees with it whenever the quotient is
  representable (as for equal spans, where both are exactly 1).
\<close>

definition compute_quantity :: "consumption \<Rightarrow> error + rat" where
  "compute_quantity self =
     (case (cons_end_date self, cons_start_date self) of
        (Some e, Some s) \<Rightarrow>
          (case (end_period_date self, init_period_date self) of
             (Some ep, Some ip) \<Rightarrow>
               if 86400 * (ep - ip) = 0 then Inl ZeroDivisionError
               else Inr (of_int (86400 * (e - s)) / of_int (86400 * (ep - ip)))
           | _ \<Rightarrow> Inl TypeError)
      | _ \<Rightarrow> Inl TypeError)"

text \<open>
  \<open>get_invoice_line\<close>; \<open>uom_round\<close> is the host's \<^verbatim>\<open>Uom.round(number, precision)\<close>.
  A consumption whose line cannot be read is the host's read error.
\<close>

definition get_invoice_line ::
    "(rat \<Rightarrow> rat \<Rightarrow> rat) \<Rightarrow> database \<Rightarrow> consumption \<Rightarrow> error + invoice_line" where
  "get_invoice_line uom_round db self =
     (case browse_line db (contract_line self) of
        None \<Rightarrow> Inl (UserError ''read_error'')
      | Some (ctr, line) \<Rightarrow>
          let prd = map_option service_product (service line);
              pty = party ctr
          in case (case prd of
                     Some p \<Rightarrow>
                       (case account_revenue_used p of
                          None \<Rightarrow> Inl (UserError ''missing_account_revenue'')
                        | Some a \<Rightarrow> Inr (get_taxes p pty, Some (default_uom_rounding p), a))
                   | None \<Rightarrow>
                       (case property_account db [''product.template'', ''product.category''] of
                          None \<Rightarrow> Inl (UserError ''missing_account_revenue_property'')
                        | Some a \<Rightarrow> Inr ([], None, a))) of
               Inl e \<Rightarrow> Inl e
             | Inr (taxes, unit, account) \<Rightarrow>
                 (case compute_quantity self of
                    Inl e \<Rightarrow> Inl e
                  | Inr quantity \<Rightarrow>
                      let rounding = (case unit of Some r \<Rightarrow> r | None \<Rightarrow> 1)
                      in Inr \<lparr>il_type = ''line'', il_origin = line_id line,
                              il_company = company ctr, il_currency = currency ctr,
                              il_product = prd,
                              il_description =
                                (description line, cons_start_date self, cons_end_date self),
                              il_unit_price = unit_price line, il_party = pty,
                              il_unit = unit, il_account = Some account, il_taxes = taxes,
                              il_invoice_type = ''out_invoice'',
                              il_quantity = uom_round quantity rounding\<rparr>))"

subsection \<open>ContractConsumption.invoice\<close>

type_synonym invoice_key = "nat \<times> nat \<times> nat \<times> string \<times> date option"

text \<open>
  An entry of the dictionary \<open>lines\<close>: the consumption id, and the saved invoice line
  with its id. The key of an entry reads the invoice date of the consumption from the
  table; records compare by their ids.
\<close>

type_synonym lines_entry = "nat \<times> nat \<times> invoice_line"

definition group_invoice_key :: "database \<Rightarrow> lines_entry \<Rightarrow> invoice_key" where
  "group_invoice_key db entry =
     (case entry of (consumption_id, lid, il) \<Rightarrow>
        (party_id (il_party il), il_company il, il_currency il, il_invoice_type il,
         (case map_of (db_consumptions db) consumption_id of
            None \<Rightarrow> None
          | Some c \<Rightarrow> invoice_date c)))"

text \<open>
  \<open>_get_invoice\<close> and the lines it receives. The party of the key is the party of the
  group's lines.
\<close>

definition get_invoice :: "database \<Rightarrow> invoice_key \<Rightarrow> lines_entry list \<Rightarrow> invoice" where
  "get_invoice db key grouped_lines =
     (case key of (k_party, k_company, k_currency, k_type, k_date) \<Rightarrow>
        let journal = map_option fst (List.find (\<lambda>j. snd j = ''revenue'') (db_journals db));
            pty = (case grouped_lines of
                     [] \<Rightarrow> None
                   | entry # _ \<Rightarrow> Some (il_party (snd (snd entry))))
        in \<lparr>inv_party = k_party, inv_company = k_company, inv_currency = k_currency,
             inv_type = k_type, inv_invoice_date = k_date,
             inv_invoice_address = Option.bind pty address_get_invoice,
             inv_journal = journal,
             inv_payment_term = Option.bind pty customer_payment_term,
             inv_account = Option.bind pty account_receivable,
             inv_lines = map (\<lambda>x. fst (snd x)) grouped_lines\<rparr>)"

text \<open>\<^verbatim>\<open>itertools.groupby\<close>: runs of consecutive elements with equal keys.\<close>

function groupby :: "('a \<Rightarrow> 'k) \<Rightarrow> 'a list \<Rightarrow> ('k \<times> 'a list) list" where
  "groupby f [] = []"
| "groupby f (x # xs) =
     (f x, x # takeWhile (\<lambda>y. f y = f x) xs) # groupby f (dropWhile (\<lambda>y. f y = f x) xs)"
  by pat_completeness auto
termination
  by (relation "measure (\<lambda>(f, xs). length xs)") (simp_all add: length_dropWhile_le less_Suc_eq_le)

text \<open>
  The first loop of \<open>invoice\<close>: every consumption builds its invoice line, the line is
  saved (it gets a fresh id), the dictionary \<open>lines\<close> is set at the consumption's id and
  the write of the consumption's \<open>invoice_line\<close> is queued. No test of the
  consumption's present \<open>invoice_line\<close> is made.
\<close>

fun save_lines ::
    "(rat \<Rightarrow> rat \<Rightarrow> rat) \<Rightarrow> database \<Rightarrow> nat list \<Rightarrow> (nat \<times> invoice_line) list
      \<Rightarrow> lines_entry list \<Rightarrow> (nat \<times> nat) list
      \<Rightarrow> error + ((nat \<times> invoice_line) list \<times> lines_entry list \<times> (nat \<times> nat) list)" where
  "save_lines uom_round db [] il_tbl lines' to_write = Inr (il_tbl, lines', to_write)"
| "save_lines uom_round db (cid # rest) il_tbl lines' to_write =
     (case map_of (db_consumptions db) cid of
        None \<Rightarrow> Inl (UserError ''read_error'')
      | Some c \<Rightarrow>
          (case get_invoice_line uom_round db c of
             Inl e \<Rightarrow> Inl e
           | Inr line \<Rightarrow>
               let lid = fresh_id (map fst il_tbl)
               in save_lines uom_round db rest (il_tbl @ [(lid, line)])
                    (AList.update cid (lid, line) lines') (to_write @ [(cid, lid)])))"

definition write_invoice_line :: "consumption_table \<Rightarrow> nat \<times> nat \<Rightarrow> consumption_table" where
  "write_invoice_line tbl w =
     map (\<lambda>row. if fst row = fst w then (fst row, (snd row)\<lparr>invoice_line := Some (snd w)\<rparr>)
                else row) tbl"

text \<open>
  \<open>invoice\<close>, on the consumptions with the given ids. An exception leaves the database
  as it was (the transaction is rolled back).
\<close>

definition invoice :: "(rat \<Rightarrow> rat \<Rightarrow> rat) \<Rightarrow> database \<Rightarrow> nat list \<Rightarrow> error + database" where
  "invoice uom_round db consumptions =
     (case save_lines uom_round db consumptions (db_invoice_lines db) [] [] of
        Inl e \<Rightarrow> Inl e
      | Inr (il_tbl, lines', to_write) \<Rightarrow>
          if lines' = [] then Inr db
          else
            let sorted_lines = sort_key (group_invoice_key db) lines';
                invoices = map (\<lambda>g. get_invoice db (fst g) (snd g))
                             (groupby (group_invoice_key db) sorted_lines)
            in Inr (db\<lparr>db_invoice_lines := il_tbl,
                        db_invoices := db_invoices db @ create_rows (db_invoices db) invoices,
                        db_consumptions :=
                          foldl write_invoice_line (db_consumptions db) to_write\<rparr>))"

section \<open>Properties\<close>

subsection \<open>Evaluation rules and example records\<close>

lemmas calendar_defs = ord2ymd_def ymd2ord_def days_in_month_def days_before_month_def
  days_before_year_def is_leap_def DAYS_IN_MONTH_def DAYS_BEFORE_MONTH_def MAXYEAR_def
  max_ordinal_def Let_def

lemmas rrule_defs = rr_between_def rr_between_loop.simps rr_after_def rr_after_loop.simps
  rr_cand_def rr_step_def rrule_new_def contract_rrule_def rrule_values_def freq_mapping_def
  todatetime_def

lemmas consume_defs = consume_def get_consumptions_def
  line_consumptions_def last_consumption_date_def last_consumption_invoice_date_def
  get_last_consumption_date_def sql_max_def get_consumption_def get_invoice_date_def
  add_days_def create_rows_def fresh_id_def

definition example_party :: party where
  "example_party = \<lparr>party_id = 1, customer_tax_rule = None, address_get_invoice = None,
     customer_payment_term = None, account_receivable = None\<rparr>"

definition example_line :: contract_line where
  "example_line = \<lparr>line_id = 1, service = None, description = ''hosting'', unit_price = 10\<rparr>"

definition example_contract :: contract where
  "example_contract = \<lparr>contract_id = 1, freq = Some monthly, interval = Some 1, company = 1,
     currency = 1, party = example_party, start_date = 737425, end_date = None,
     start_period_date = 737425, first_invoice_date = None, lines = [example_line],
     state = validated\<rparr>"

definition example_consumption :: "date \<Rightarrow> date \<Rightarrow> date \<Rightarrow> consumption" where
  "example_consumption s e i = get_consumption example_line s e i s e"

lemmas example_defs = example_party_def example_line_def example_contract_def
  example_consumption_def

subsection \<open>consume without a date\<close>

lemma contracts_loop_today:
  "contracts_loop today tbl cs d = contracts_loop today' tbl cs d"
  by (induction cs) (simp_all add: get_consumptions_def split: sum.splits)

text \<open>
  C10. \<open>consume\<close> called with \<open>date = None\<close> raises TypeError before any consumption is
  generated, whatever the table and the contracts are; and since \<open>consume\<close> always passes
  a date on, its result never depends on the host's \<^verbatim>\<open>Date.today()\<close>: the default of
  \<open>get_consumptions\<close> is not reachable through \<open>consume\<close>.
\<close>

theorem consume_None_TypeError:
  "consume today tbl contracts None = Inl TypeError
   \<and> consume today tbl contracts date' = consume today' tbl contracts date'"
  by (simp add: consume_def contracts_loop_today [of today _ _ _ today']
      split: option.splits sum.splits)

subsection \<open>A contract without a frequency\<close>

text \<open>
  C4. For a contract whose frequency is unset and that has a line, \<open>get_consumptions\<close>
  raises the TypeError of the rule's constructor, where the claim asks for no consumptions
  and a normal return; \<open>check_start_date\<close>, on the same contract, returns silently.
\<close>

theorem get_consumptions_no_freq_TypeError:
  "get_consumptions today [] (self\<lparr>freq := None, lines := line # rest\<rparr>) e = Inl TypeError
   \<and> check_start_date (self\<lparr>freq := None, lines := line # rest\<rparr>) = Inr None"
  by (simp add: consume_defs rrule_defs check_start_date_def)

subsection \<open>The monthly example of 2020\<close>

text \<open>The ordinals of the dates the examples use.\<close>

lemma ordinals_2020:
  "ymd2ord 2020 1 1 = 737425" "ymd2ord 2020 1 31 = 737455" "ymd2ord 2020 2 1 = 737456"
  "ymd2ord 2020 2 2 = 737457" "ymd2ord 2020 2 29 = 737484" "ymd2ord 2020 3 1 = 737485"
  "ymd2ord 2020 3 2 = 737486" "ymd2ord 2020 3 29 = 737513" "ymd2ord 2020 3 31 = 737515"
  "ymd2ord 2020 4 1 = 737516" "ymd2ord 2020 4 29 = 737544" "ymd2ord 2020 5 1 = 737546"
  "ymd2ord 2020 5 2 = 737547"
  by (simp_all add: calendar_defs)

lemma between_2020:
  "rr_between \<lparr>rr_freq = MONTHLY, rr_dtstart = 737425, rr_interval = Suc 0\<rparr> 737425 737516
     = [737456, 737485]"
  by (simp add: rrule_defs calendar_defs)

lemma after_jan31:
  "rr_after \<lparr>rr_freq = MONTHLY, rr_dtstart = 737455, rr_interval = Suc 0\<rparr> 737455
     = Some 737515"
  by (simp add: rrule_defs calendar_defs)

lemma example_rrule:
  "contract_rrule example_contract
     = Inr \<lparr>rr_freq = MONTHLY, rr_dtstart = 737425, rr_interval = Suc 0\<rparr>"
  by (simp add: example_contract_def contract_rrule_def rrule_values_def rrule_new_def
      freq_mapping_def todatetime_def)

lemma example_invoice_date_jan31: "get_invoice_date example_contract 737455 = Inr 737515"
  by (simp add: get_invoice_date_def example_rrule rrule_new_def todatetime_def after_jan31)

lemma example_fields:
  "lines example_contract = [example_line]" "start_period_date example_contract = 737425"
  "start_date example_contract = 737425" "first_invoice_date example_contract = None"
  "freq example_contract = Some monthly" "interval example_contract = Some 1"
  "line_id example_line = Suc 0"
  by (simp_all add: example_contract_def example_line_def)

lemma example_get_consumptions_2020:
  "get_consumptions today [] example_contract (Some 737516)
     = Inr [example_consumption 737425 737455 737455,
            example_consumption 737456 737484 737515]"
  by (simp add: get_consumptions_def example_fields line_consumptions_def
      last_consumption_date_def last_consumption_invoice_date_def
      get_last_consumption_date_def sql_max_def add_days_def max_ordinal_def todatetime_def
      example_rrule between_2020 example_invoice_date_jan31 example_consumption_def)

lemma example_consume_2020:
  "consume today [] [example_contract] (Some 737515)
   = Inr ([(1, example_consumption 737425 737455 737455),
           (2, example_consumption 737456 737484 737515)],
          [(1, example_consumption 737425 737455 737455),
           (2, example_consumption 737456 737484 737515)])"
  by (simp add: consume_def add_days_def max_ordinal_def example_get_consumptions_2020
      create_rows_def fresh_id_def Let_def numeral_2_eq_2)

subsection \<open>Resuming after the last consumption\<close>

text \<open>
  C2. The claim: generation resumes one day after the line's last recorded consumption
  end. The code at the claim's own setting: the example contract (monthly from
  2020-01-01, ordinal 737425) has one recorded consumption that ends on 2020-01-31
  (737455); \<open>get_consumptions\<close> up to 2020-03-02 (737486) returns one consumption, and it
  starts on 2020-02-02 (737457), two days after the last end, not on 2020-02-01: the
  day is added once to \<open>last_consumption_date\<close> and once more for \<open>start\<close>.
\<close>

theorem resume_two_days_after_last:
  "get_consumptions today [(1, example_consumption 737425 737455 737455)]
      example_contract (Some 737486)
   = Inr [get_consumption example_line 737457 737484 737515 737457 737484]"
proof -
  have b: "rr_between \<lparr>rr_freq = MONTHLY, rr_dtstart = 737425, rr_interval = Suc 0\<rparr>
             737457 737486 = [737485]"
    by (simp add: rrule_defs calendar_defs)
  have l: "get_last_consumption_date [(Suc 0, example_consumption 737425 737455 737455)]
             (Suc 0) = Some 737455"
    by (simp add: get_last_consumption_date_def sql_max_def example_consumption_def
        get_consumption_def example_line_def)
  show ?thesis
    by (simp add: get_consumptions_def example_fields line_consumptions_def
        last_consumption_date_def last_consumption_invoice_date_def l add_days_def
        max_ordinal_def todatetime_def example_rrule b example_invoice_date_jan31)
qed

subsection \<open>Consuming the first quarter of 2020\<close>



lemma map_snd_create_rows: "map snd (create_rows tbl vals) = vals"
  by (simp add: create_rows_def)




subsection \<open>Running consume a second time\<close>

lemma sql_max_fold_Some:
  "fold (\<lambda>x acc. case x of None \<Rightarrow> acc
                     | Some v \<Rightarrow> (case acc of None \<Rightarrow> Some v | Some a \<Rightarrow> Some (max a v)))
       xs acc = Some (m::int) \<Longrightarrow>
     (Some m \<in> set xs \<or> acc = Some m) \<and> (\<forall>v. Some v \<in> set xs \<longrightarrow> v \<le> m)
       \<and> (\<forall>a. acc = Some a \<longrightarrow> a \<le> m)"
proof (induction xs arbitrary: acc)
  case Nil
  then show ?case by simp
next
  case (Cons x xs)
  show ?case
  proof (cases x)
    case None
    with Cons.prems Cons.IH [of acc] show ?thesis by auto
  next
    case (Some v)
    show ?thesis
    proof (cases acc)
      case None
      with Some Cons.prems Cons.IH [of "Some v"] show ?thesis by auto
    next
      case (Some a)
      with \<open>x = Some v\<close> Cons.prems Cons.IH [of "Some (max a v)"] show ?thesis
        by (auto simp: max_def split: if_splits)
    qed
  qed
qed

lemma sql_max_fold_None:
  "fold (\<lambda>x acc. case x of None \<Rightarrow> acc
                     | Some v \<Rightarrow> (case acc of None \<Rightarrow> Some v | Some a \<Rightarrow> Some (max a v)))
       xs acc = (None :: int option) \<Longrightarrow> acc = None \<and> (\<forall>v. Some v \<notin> set xs)"
proof (induction xs arbitrary: acc)
  case Nil
  then show ?case by simp
next
  case (Cons x xs)
  show ?case
  proof (cases x)
    case None
    with Cons.prems Cons.IH [of acc] show ?thesis by auto
  next
    case (Some v)
    show ?thesis
    proof (cases acc)
      case None
      with Some Cons.prems Cons.IH [of "Some v"] show ?thesis by auto
    next
      case (Some a)
      with \<open>x = Some v\<close> Cons.prems Cons.IH [of "Some (max a v)"] show ?thesis by auto
    qed
  qed
qed

lemma sql_max_Some:
  "sql_max xs = Some m \<Longrightarrow> Some m \<in> set xs \<and> (\<forall>v. Some v \<in> set xs \<longrightarrow> v \<le> m)"
  using sql_max_fold_Some [of xs None m] by (simp add: sql_max_def)

lemma sql_max_None: "sql_max xs = None \<Longrightarrow> Some v \<notin> set xs"
  using sql_max_fold_None [of xs None] by (simp add: sql_max_def)

lemma consumptions_loop_end_dates:
  "consumptions_loop self line occs start liv lcd = Inr cs \<Longrightarrow>
     map end_period_date cs = map (\<lambda>occ. Some (occ - 1)) occs
     \<and> (\<forall>c \<in> set cs. contract_line c = line_id line)
     \<and> (\<forall>occ \<in> set occs. 2 \<le> occ)"
proof (induction occs arbitrary: start liv lcd cs)
  case Nil
  then show ?case by simp
next
  case (Cons occ rest)
  from Cons.prems obtain date1 inv_date cs' where
    d1: "add_days occ (- 1) = Inr date1"
    and rec: "consumptions_loop self line rest (date1 + 1) (Some inv_date) (Some (date1 + 1))
                = Inr cs'"
    and cs: "cs = get_consumption line (if lcd = None then start_date self else start)
                    date1 inv_date
                    (if lcd = None then start_period_date self else start) date1 # cs'"
    by (auto simp: Let_def add_days_def split: sum.splits if_splits)
  from d1 have date1: "date1 = occ - 1" and ge: "2 \<le> occ"
    by (auto simp: add_days_def split: if_splits)
  note ih = Cons.IH [OF rec]
  from ih have a: "map end_period_date cs' = map (\<lambda>occ. Some (occ - 1)) rest"
    and b: "\<forall>c \<in> set cs'. contract_line c = line_id line"
    and c: "\<forall>occ \<in> set rest. 2 \<le> occ"
    by blast+
  have "map end_period_date cs = map (\<lambda>occ. Some (occ - 1)) (occ # rest)"
    using a cs date1 by (simp add: get_consumption_def)
  moreover have "\<forall>c \<in> set cs. contract_line c = line_id line"
    using b cs by (simp add: get_consumption_def)
  moreover have "\<forall>o' \<in> set (occ # rest). 2 \<le> o'"
    using c ge by simp
  ultimately show ?case by blast
qed

lemma rr_between_loop_lt_before:
  "x \<in> set (rr_between_loop r a b s k) \<Longrightarrow> x < b"
proof (induction "rr_bound r - k" arbitrary: k s rule: less_induct)
  case less
  show ?case
  proof (cases "rr_cand r k")
    case Stop
    with less.prems show ?thesis by (simp add: rr_between_loop.simps [of r a b s k])
  next
    case Skip
    then have d: "rr_bound r - Suc k < rr_bound r - k" by (simp add: rr_cand_decr)
    from Skip less.prems have "x \<in> set (rr_between_loop r a b s (Suc k))"
      by (simp add: rr_between_loop.simps [of r a b s k])
    with less.hyps [OF d] show ?thesis by blast
  next
    case (Occ i)
    then have d: "rr_bound r - Suc k < rr_bound r - k" by (simp add: rr_cand_decr)
    from Occ less.prems have
      "i < b \<and> (x = i \<or> x \<in> set (rr_between_loop r a b True (Suc k))
                \<or> x \<in> set (rr_between_loop r a b s (Suc k))
                \<or> x \<in> set (rr_between_loop r a b False (Suc k)))"
      by (auto simp: rr_between_loop.simps [of r a b s k] split: if_splits)
    with less.hyps [OF d] show ?thesis by blast
  qed
qed

lemma rr_between_loop_first_gt:
  "x \<in> set (rr_between_loop r a b False k) \<Longrightarrow>
     \<exists>y \<in> set (rr_between_loop r a b False k). a < y"
proof (induction "rr_bound r - k" arbitrary: k rule: less_induct)
  case less
  show ?case
  proof (cases "rr_cand r k")
    case Stop
    with less.prems show ?thesis by (simp add: rr_between_loop.simps [of r a b False k])
  next
    case Skip
    then have d: "rr_bound r - Suc k < rr_bound r - k" by (simp add: rr_cand_decr)
    from Skip have e: "rr_between_loop r a b False k = rr_between_loop r a b False (Suc k)"
      by (simp add: rr_between_loop.simps [of r a b False k])
    from less.hyps [OF d] less.prems show ?thesis unfolding e by blast
  next
    case (Occ i)
    then have d: "rr_bound r - Suc k < rr_bound r - k" by (simp add: rr_cand_decr)
    show ?thesis
    proof (cases "i < b \<and> a < i")
      case True
      with Occ have "i \<in> set (rr_between_loop r a b False k)"
        by (simp add: rr_between_loop.simps [of r a b False k])
      with True show ?thesis by blast
    next
      case False
      with Occ less.prems have
        e: "rr_between_loop r a b False k = rr_between_loop r a b False (Suc k)"
        by (auto simp: rr_between_loop.simps [of r a b False k] split: if_splits)
      from less.hyps [OF d] less.prems show ?thesis unfolding e by blast
    qed
  qed
qed

lemma rr_between_loop_all_le:
  "\<forall>x \<in> set (rr_between_loop r a b True k). x \<le> a' \<Longrightarrow>
     rr_between_loop r a' b False k = []"
proof (induction "rr_bound r - k" arbitrary: k rule: less_induct)
  case less
  show ?case
  proof (cases "rr_cand r k")
    case Stop
    then show ?thesis by (simp add: rr_between_loop.simps [of r a' b False k])
  next
    case Skip
    then have d: "rr_bound r - Suc k < rr_bound r - k" by (simp add: rr_cand_decr)
    from Skip less.prems have "\<forall>x \<in> set (rr_between_loop r a b True (Suc k)). x \<le> a'"
      by (simp add: rr_between_loop.simps [of r a b True k])
    from less.hyps [OF d this] Skip show ?thesis
      by (simp add: rr_between_loop.simps [of r a' b False k])
  next
    case (Occ i)
    then have d: "rr_bound r - Suc k < rr_bound r - k" by (simp add: rr_cand_decr)
    show ?thesis
    proof (cases "b \<le> i")
      case True
      with Occ show ?thesis by (simp add: rr_between_loop.simps [of r a' b False k])
    next
      case False
      with Occ have e: "rr_between_loop r a b True k = i # rr_between_loop r a b True (Suc k)"
        by (simp add: rr_between_loop.simps [of r a b True k])
      from less.prems have i: "i \<le> a'"
        and rest: "\<forall>x \<in> set (rr_between_loop r a b True (Suc k)). x \<le> a'"
        unfolding e by simp_all
      from less.hyps [OF d rest] Occ False i show ?thesis
        by (simp add: rr_between_loop.simps [of r a' b False k])
    qed
  qed
qed

lemma rr_between_loop_later_empty:
  "a \<le> a' \<Longrightarrow> \<forall>x \<in> set (rr_between_loop r a b False k). x \<le> a' \<Longrightarrow>
     rr_between_loop r a' b False k = []"
proof (induction "rr_bound r - k" arbitrary: k rule: less_induct)
  case less
  show ?case
  proof (cases "rr_cand r k")
    case Stop
    then show ?thesis by (simp add: rr_between_loop.simps [of r a' b False k])
  next
    case Skip
    then have d: "rr_bound r - Suc k < rr_bound r - k" by (simp add: rr_cand_decr)
    from Skip less.prems(2) have "\<forall>x \<in> set (rr_between_loop r a b False (Suc k)). x \<le> a'"
      by (simp add: rr_between_loop.simps [of r a b False k])
    from less.hyps [OF d less.prems(1) this] Skip show ?thesis
      by (simp add: rr_between_loop.simps [of r a' b False k])
  next
    case (Occ i)
    then have d: "rr_bound r - Suc k < rr_bound r - k" by (simp add: rr_cand_decr)
    show ?thesis
    proof (cases "b \<le> i")
      case True
      with Occ show ?thesis by (simp add: rr_between_loop.simps [of r a' b False k])
    next
      case nb: False
      show ?thesis
      proof (cases "a < i")
        case True
        with Occ nb have
          e: "rr_between_loop r a b False k = i # rr_between_loop r a b True (Suc k)"
          by (simp add: rr_between_loop.simps [of r a b False k])
        from less.prems(2) have i: "i \<le> a'"
          and rest: "\<forall>x \<in> set (rr_between_loop r a b True (Suc k)). x \<le> a'"
          unfolding e by simp_all
        from rr_between_loop_all_le [OF rest] Occ nb i show ?thesis
          by (simp add: rr_between_loop.simps [of r a' b False k])
      next
        case False
        with Occ nb have
          e: "rr_between_loop r a b False k = rr_between_loop r a b False (Suc k)"
          by (simp add: rr_between_loop.simps [of r a b False k])
        from less.prems(2) have
          rest: "\<forall>x \<in> set (rr_between_loop r a b False (Suc k)). x \<le> a'"
          unfolding e .
        from False less.prems(1) have i: "i \<le> a'" by simp
        from less.hyps [OF d less.prems(1) rest] Occ nb i show ?thesis
          by (simp add: rr_between_loop.simps [of r a' b False k])
      qed
    qed
  qed
qed


lemma sql_max_cong_set:
  assumes "set xs = set ys"
  shows "sql_max xs = sql_max ys"
proof (cases "sql_max xs")
  case None
  show ?thesis
  proof (cases "sql_max ys")
    case nys: None
    with None show ?thesis by simp
  next
    case (Some m)
    from sql_max_Some [OF Some] have "Some m \<in> set ys" by blast
    with assms sql_max_None [OF None, of m] show ?thesis by blast
  qed
next
  case (Some m)
  from sql_max_Some [OF Some] have m: "Some m \<in> set xs"
    and mx: "\<forall>v. Some v \<in> set xs \<longrightarrow> v \<le> m"
    by blast+
  show ?thesis
  proof (cases "sql_max ys")
    case None
    with assms m sql_max_None [OF None, of m] show ?thesis by blast
  next
    case sy: (Some n)
    from sql_max_Some [OF sy] have n: "Some n \<in> set ys"
      and nx: "\<forall>v. Some v \<in> set ys \<longrightarrow> v \<le> n"
      by blast+
    from assms m nx have "m \<le> n" by blast
    moreover from assms n mx have "n \<le> m" by blast
    ultimately show ?thesis using Some sy by simp
  qed
qed

lemma lines_loop_sets:
  "lines_loop tbl self d ls = Inr out \<Longrightarrow>
     (\<forall>line \<in> set ls. \<exists>cs. line_consumptions tbl self d line = Inr cs \<and> set cs \<subseteq> set out)
     \<and> (\<forall>x \<in> set out. \<exists>line \<in> set ls. \<exists>cs.
           line_consumptions tbl self d line = Inr cs \<and> x \<in> set cs)"
proof (induction ls arbitrary: out)
  case Nil
  then show ?case by simp
next
  case (Cons line rest)
  from Cons.prems obtain cs cs' where lc: "line_consumptions tbl self d line = Inr cs"
    and rec: "lines_loop tbl self d rest = Inr cs'" and out: "out = cs @ cs'"
    by (auto split: sum.splits)
  from Cons.IH [OF rec] have
    a: "\<forall>l \<in> set rest. \<exists>cs. line_consumptions tbl self d l = Inr cs \<and> set cs \<subseteq> set cs'"
    and b: "\<forall>x \<in> set cs'. \<exists>l \<in> set rest. \<exists>cs.
           line_consumptions tbl self d l = Inr cs \<and> x \<in> set cs"
    by blast+
  have "\<forall>l \<in> set (line # rest). \<exists>cs. line_consumptions tbl self d l = Inr cs
          \<and> set cs \<subseteq> set out"
  proof
    fix l assume "l \<in> set (line # rest)"
    then have "l = line \<or> l \<in> set rest" by simp
    then show "\<exists>cs. line_consumptions tbl self d l = Inr cs \<and> set cs \<subseteq> set out"
    proof
      assume "l = line"
      with lc out show ?thesis by simp
    next
      assume "l \<in> set rest"
      with a obtain c2 where "line_consumptions tbl self d l = Inr c2" "set c2 \<subseteq> set cs'"
        by blast
      with out show ?thesis by auto
    qed
  qed
  moreover have "\<forall>x \<in> set out. \<exists>l \<in> set (line # rest). \<exists>cs.
           line_consumptions tbl self d l = Inr cs \<and> x \<in> set cs"
  proof
    fix x assume "x \<in> set out"
    with out have "x \<in> set cs \<or> x \<in> set cs'" by simp
    then show "\<exists>l \<in> set (line # rest). \<exists>cs.
           line_consumptions tbl self d l = Inr cs \<and> x \<in> set cs"
    proof
      assume "x \<in> set cs"
      with lc show ?thesis by auto
    next
      assume "x \<in> set cs'"
      with b obtain l c2 where "l \<in> set rest" "line_consumptions tbl self d l = Inr c2"
        "x \<in> set c2"
        by blast
      then show ?thesis by auto
    qed
  qed
  ultimately show ?case by (rule conjI)
qed

lemma contracts_loop_sets:
  "contracts_loop today tbl cts d = Inr out \<Longrightarrow>
     (\<forall>c \<in> set cts. \<forall>line \<in> set (lines c). \<exists>cs.
         line_consumptions tbl c d line = Inr cs \<and> set cs \<subseteq> set out)
     \<and> (\<forall>x \<in> set out. \<exists>c \<in> set cts. \<exists>line \<in> set (lines c). \<exists>cs.
           line_consumptions tbl c d line = Inr cs \<and> x \<in> set cs)"
proof (induction cts arbitrary: out)
  case Nil
  then show ?case by simp
next
  case (Cons c rest)
  from Cons.prems obtain xs ys where ll: "lines_loop tbl c d (lines c) = Inr xs"
    and rec: "contracts_loop today tbl rest d = Inr ys" and out: "out = xs @ ys"
    by (auto simp: get_consumptions_def todatetime_def split: sum.splits)
  from lines_loop_sets [OF ll] have
    a1: "\<forall>line \<in> set (lines c). \<exists>cs. line_consumptions tbl c d line = Inr cs
           \<and> set cs \<subseteq> set xs"
    and b1: "\<forall>x \<in> set xs. \<exists>line \<in> set (lines c). \<exists>cs.
           line_consumptions tbl c d line = Inr cs \<and> x \<in> set cs"
    by blast+
  from Cons.IH [OF rec] have
    a2: "\<forall>c' \<in> set rest. \<forall>line \<in> set (lines c'). \<exists>cs.
         line_consumptions tbl c' d line = Inr cs \<and> set cs \<subseteq> set ys"
    and b2: "\<forall>x \<in> set ys. \<exists>c' \<in> set rest. \<exists>line \<in> set (lines c'). \<exists>cs.
           line_consumptions tbl c' d line = Inr cs \<and> x \<in> set cs"
    by blast+
  have "\<forall>c' \<in> set (c # rest). \<forall>line \<in> set (lines c'). \<exists>cs.
         line_consumptions tbl c' d line = Inr cs \<and> set cs \<subseteq> set out"
  proof (intro ballI)
    fix c' line assume "c' \<in> set (c # rest)" and l: "line \<in> set (lines c')"
    then have "c' = c \<or> c' \<in> set rest" by simp
    then show "\<exists>cs. line_consumptions tbl c' d line = Inr cs \<and> set cs \<subseteq> set out"
    proof
      assume "c' = c"
      with a1 l obtain c2 where "line_consumptions tbl c' d line = Inr c2" "set c2 \<subseteq> set xs"
        by blast
      with out show ?thesis by auto
    next
      assume "c' \<in> set rest"
      with a2 l obtain c2 where "line_consumptions tbl c' d line = Inr c2" "set c2 \<subseteq> set ys"
        by blast
      with out show ?thesis by auto
    qed
  qed
  moreover have "\<forall>x \<in> set out. \<exists>c' \<in> set (c # rest). \<exists>line \<in> set (lines c'). \<exists>cs.
           line_consumptions tbl c' d line = Inr cs \<and> x \<in> set cs"
  proof
    fix x assume "x \<in> set out"
    with out have "x \<in> set xs \<or> x \<in> set ys" by simp
    then show "\<exists>c' \<in> set (c # rest). \<exists>line \<in> set (lines c'). \<exists>cs.
           line_consumptions tbl c' d line = Inr cs \<and> x \<in> set cs"
    proof
      assume "x \<in> set xs"
      with b1 obtain line c2 where "line \<in> set (lines c)"
        "line_consumptions tbl c d line = Inr c2" "x \<in> set c2"
        by blast
      then show ?thesis by auto
    next
      assume "x \<in> set ys"
      with b2 obtain c' line c2 where "c' \<in> set rest" "line \<in> set (lines c')"
        "line_consumptions tbl c' d line = Inr c2" "x \<in> set c2"
        by blast
      then show ?thesis by auto
    qed
  qed
  ultimately show ?case by (rule conjI)
qed

lemma lines_loop_Nil:
  "\<forall>line \<in> set ls. line_consumptions tbl self d line = Inr [] \<Longrightarrow>
     lines_loop tbl self d ls = Inr []"
  by (induction ls) simp_all

lemma contracts_loop_Nil:
  "\<forall>c \<in> set cts. \<forall>line \<in> set (lines c). line_consumptions tbl c d line = Inr [] \<Longrightarrow>
     contracts_loop today tbl cts d = Inr []"
  by (induction cts) (simp_all add: get_consumptions_def todatetime_def lines_loop_Nil)

lemma distinct_line_ids:
  "distinct (map line_id (concat (map lines cts))) \<Longrightarrow>
   c \<in> set cts \<Longrightarrow> line \<in> set (lines c) \<Longrightarrow>
   c' \<in> set cts \<Longrightarrow> line' \<in> set (lines c') \<Longrightarrow> line_id line = line_id line' \<Longrightarrow>
     c = c' \<and> line = line'"
proof (induction cts)
  case Nil
  then show ?case by simp
next
  case (Cons c0 rest)
  from Cons.prems(1) have d0: "distinct (map line_id (lines c0))"
    and dr: "distinct (map line_id (concat (map lines rest)))"
    and dj: "line_id ` set (lines c0) \<inter> line_id ` set (concat (map lines rest)) = {}"
    by (simp_all add: image_Un)
  have in_rest: "line_id l \<in> line_id ` set (concat (map lines rest))"
    if "k \<in> set rest" "l \<in> set (lines k)" for k l
    using that by auto
  from Cons.prems(2) have c: "c = c0 \<or> c \<in> set rest" by simp
  from Cons.prems(4) have c': "c' = c0 \<or> c' \<in> set rest" by simp
  from c show ?case
  proof
    assume e: "c = c0"
    from c' show ?thesis
    proof
      assume e': "c' = c0"
      from d0 have "inj_on line_id (set (lines c0))" by (simp only: distinct_map)
      with Cons.prems(3,5,6) e e' have "line = line'" by (auto dest: inj_onD)
      with e e' show ?thesis by simp
    next
      assume "c' \<in> set rest"
      from in_rest [OF this Cons.prems(5)]
      have m1: "line_id line' \<in> line_id ` set (concat (map lines rest))" .
      from Cons.prems(3) e have m2: "line_id line \<in> line_id ` set (lines c0)" by blast
      from m1 m2 Cons.prems(6) have
        "line_id line \<in> line_id ` set (lines c0) \<inter> line_id ` set (concat (map lines rest))"
        by (intro IntI) simp_all
      then have False by (simp only: dj empty_iff)
      then show ?thesis ..
    qed
  next
    assume r: "c \<in> set rest"
    from c' show ?thesis
    proof
      assume e': "c' = c0"
      from in_rest [OF r Cons.prems(3)]
      have m1: "line_id line \<in> line_id ` set (concat (map lines rest))" .
      from Cons.prems(5) e' have m2: "line_id line' \<in> line_id ` set (lines c0)" by blast
      from m1 m2 Cons.prems(6) have
        "line_id line \<in> line_id ` set (lines c0) \<inter> line_id ` set (concat (map lines rest))"
        by (intro IntI) simp_all
      then have False by (simp only: dj empty_iff)
      then show ?thesis ..
    next
      assume "c' \<in> set rest"
      from Cons.IH [OF dr r Cons.prems(3) this Cons.prems(5,6)] show ?thesis .
    qed
  qed
qed


lemma line_consumptions_cong:
  assumes "get_last_consumption_date tbl' (line_id line)
             = get_last_consumption_date tbl (line_id line)"
  shows "line_consumptions tbl' self d line = line_consumptions tbl self d line"
  unfolding line_consumptions_def last_consumption_date_def
    last_consumption_invoice_date_def assms
  by (rule refl)

lemma line_consumptions_Inr:
  assumes "line_consumptions tbl self d line = Inr cs"
  shows "\<exists>lcd start0 r.
      (case get_last_consumption_date tbl (line_id line) of
         None \<Rightarrow> start0 = start_period_date self
       | Some l \<Rightarrow> start0 = l + 1 + 1)
      \<and> contract_rrule self = Inr r
      \<and> consumptions_loop self line (rr_between r start0 d) start0
           (get_last_consumption_date tbl (line_id line)) lcd = Inr cs"
proof (cases "get_last_consumption_date tbl (line_id line)")
  case None
  with assms show ?thesis
    by (auto simp: line_consumptions_def last_consumption_date_def
        last_consumption_invoice_date_def todatetime_def Let_def split: sum.splits)
next
  case (Some l)
  with assms show ?thesis
    by (auto simp: line_consumptions_def last_consumption_date_def
        last_consumption_invoice_date_def todatetime_def Let_def add_days_def
        split: sum.splits if_splits)
qed

lemma line_consumptions_contract_line:
  assumes "line_consumptions tbl self d line = Inr cs"
  shows "\<forall>x \<in> set cs. contract_line x = line_id line"
proof -
  from line_consumptions_Inr [OF assms] obtain lcd start0 r where
    "consumptions_loop self line (rr_between r start0 d) start0
           (get_last_consumption_date tbl (line_id line)) lcd = Inr cs"
    by blast
  from consumptions_loop_end_dates [OF this] show ?thesis by blast
qed

lemma line_consumptions_again:
  assumes lc: "line_consumptions tbl self d line = Inr cs"
    and dates: "set (map (end_period_date \<circ> snd)
                  (filter (\<lambda>row. contract_line (snd row) = line_id line) tbl'))
        = set (map (end_period_date \<circ> snd)
                  (filter (\<lambda>row. contract_line (snd row) = line_id line) tbl))
          \<union> end_period_date ` set cs"
    and d: "d \<le> max_ordinal"
  shows "line_consumptions tbl' self d line = Inr []"
proof -
  let ?X = "map (end_period_date \<circ> snd)
              (filter (\<lambda>row. contract_line (snd row) = line_id line) tbl)"
  let ?X' = "map (end_period_date \<circ> snd)
              (filter (\<lambda>row. contract_line (snd row) = line_id line) tbl')"
  have L0: "get_last_consumption_date tbl (line_id line) = sql_max ?X"
    by (simp add: get_last_consumption_date_def)
  have L': "get_last_consumption_date tbl' (line_id line) = sql_max ?X'"
    by (simp add: get_last_consumption_date_def)
  from line_consumptions_Inr [OF lc] obtain lcd start0 r where
    pre: "(case sql_max ?X of None \<Rightarrow> start0 = start_period_date self
           | Some l \<Rightarrow> start0 = l + 1 + 1)"
    and r: "contract_rrule self = Inr r"
    and loop: "consumptions_loop self line (rr_between r start0 d) start0
           (get_last_consumption_date tbl (line_id line)) lcd = Inr cs"
    unfolding L0 [symmetric] by blast
  let ?occs = "rr_between r start0 d"
  from consumptions_loop_end_dates [OF loop] have
    ep: "map end_period_date cs = map (\<lambda>occ. Some (occ - 1)) ?occs"
    and ge2: "\<forall>occ \<in> set ?occs. 2 \<le> occ"
    by blast+
  from ep have "set (map end_period_date cs) = set (map (\<lambda>occ. Some (occ - 1)) ?occs)"
    by (simp only:)
  then have eps: "end_period_date ` set cs = (\<lambda>occ. Some (occ - 1)) ` set ?occs"
    by (simp only: set_map)
  show ?thesis
  proof (cases "?occs = []")
    case True
    with ep have nil: "cs = []" by simp
    with dates have "set ?X' = set ?X" by simp
    then have "sql_max ?X' = sql_max ?X" by (rule sql_max_cong_set)
    then have "get_last_consumption_date tbl' (line_id line)
                 = get_last_consumption_date tbl (line_id line)"
      by (simp only: L0 L')
    then have "line_consumptions tbl' self d line = line_consumptions tbl self d line"
      by (rule line_consumptions_cong)
    with lc nil show ?thesis by simp
  next
    case False
    then obtain x where x: "x \<in> set ?occs" by (cases ?occs) auto
    from rr_between_loop_first_gt [of x r start0 d 0] x
    obtain y where y: "y \<in> set ?occs" "start0 < y"
      unfolding rr_between_def by blast
    from dates have X': "set ?X' = set ?X \<union> (\<lambda>occ. Some (occ - 1)) ` set ?occs"
      by (simp only: eps)
    have in_new: "Some (o' - 1) \<in> set ?X'" if "o' \<in> set ?occs" for o'
      unfolding X' using that by blast
    obtain m where m: "sql_max ?X' = Some m"
    proof (cases "sql_max ?X'")
      case None
      from sql_max_None [OF None, of "y - 1"] in_new [OF y(1)] show ?thesis by blast
    next
      case (Some m)
      then show ?thesis by (rule that)
    qed
    from sql_max_Some [OF m] have min: "Some m \<in> set ?X'"
      and mmax: "\<forall>v. Some v \<in> set ?X' \<longrightarrow> v \<le> m"
      by blast+
    have occ_le: "o' \<le> m + 1" if "o' \<in> set ?occs" for o'
    proof -
      from in_new [OF that] mmax have "o' - 1 \<le> m" by blast
      then show ?thesis by simp
    qed
    have notold: "Some m \<notin> set ?X"
    proof
      assume old: "Some m \<in> set ?X"
      obtain l0 where l0: "sql_max ?X = Some l0"
      proof (cases "sql_max ?X")
        case None
        from sql_max_None [OF None, of m] old show ?thesis by blast
      next
        case (Some l0)
        then show ?thesis by (rule that)
      qed
      from sql_max_Some [OF l0] old have "m \<le> l0" by blast
      moreover from pre l0 have "start0 = l0 + 2" by simp
      moreover from occ_le [OF y(1)] have "y \<le> m + 1" .
      ultimately show False using y(2) by simp
    qed
    from min have "Some m \<in> set ?X \<union> (\<lambda>occ. Some (occ - 1)) ` set ?occs"
      by (simp only: X')
    with notold obtain o' where o': "o' \<in> set ?occs" "m = o' - 1" by blast
    from rr_between_loop_lt_before [of o' r start0 d False 0] o'(1) have lt: "o' < d"
      unfolding rr_between_def by blast
    from ge2 o'(1) have ge: "2 \<le> o'" by blast
    from o'(2) lt ge d have a1: "add_days m 1 = Inr (m + 1)"
      and a2: "add_days (m + 1) 1 = Inr (m + 2)"
      by (simp_all add: add_days_def)
    from y(2) occ_le [OF y(1)] have s_le: "start0 \<le> m + 2" by simp
    have all_le: "\<forall>x \<in> set (rr_between_loop r start0 d False 0). x \<le> m + 2"
    proof
      fix x assume "x \<in> set (rr_between_loop r start0 d False 0)"
      then have "x \<in> set ?occs" by (simp only: rr_between_def)
      from occ_le [OF this] show "x \<le> m + 2" by simp
    qed
    from rr_between_loop_later_empty [OF s_le all_le] have e: "rr_between r (m + 2) d = []"
      by (simp only: rr_between_def)
    from m have Lm: "get_last_consumption_date tbl' (line_id line) = Some m"
      by (simp only: L')
    show ?thesis
      by (simp add: line_consumptions_def last_consumption_date_def
          last_consumption_invoice_date_def todatetime_def Lm a1 a2 r e Let_def)
  qed
qed


text \<open>
  C5. When \<open>consume\<close> has succeeded and its consumptions are recorded, a second
  \<open>consume\<close> of the same contracts with the same date creates no consumption at all,
  hence none that repeats a date range. The lines of the contracts have distinct ids.
\<close>

theorem consume_again_creates_nothing:
  assumes "consume today tbl contracts date' = Inr (created, tbl')"
    and "distinct (map line_id (concat (map lines contracts)))"
  shows "consume today tbl' contracts date' = Inr ([], tbl')"
proof -
  from assms(1) obtain d0 d out where dd: "date' = Some d0"
    and ad: "add_days d0 1 = Inr d"
    and cl: "contracts_loop today tbl contracts d = Inr out"
    and t': "tbl' = tbl @ create_rows tbl out"
    by (auto simp: consume_def Let_def split: option.splits sum.splits)
  from ad have dmax: "d \<le> max_ordinal"
    by (auto simp: add_days_def split: if_splits)
  from contracts_loop_sets [OF cl] have
    s1: "\<forall>c \<in> set contracts. \<forall>line \<in> set (lines c). \<exists>cs.
         line_consumptions tbl c d line = Inr cs \<and> set cs \<subseteq> set out"
    and s2: "\<forall>x \<in> set out. \<exists>c \<in> set contracts. \<exists>line \<in> set (lines c). \<exists>cs.
           line_consumptions tbl c d line = Inr cs \<and> x \<in> set cs"
    by blast+
  have "set (map snd (create_rows tbl out)) = set out"
    by (simp only: map_snd_create_rows)
  then have snd_created: "snd ` set (create_rows tbl out) = set out"
    by (simp only: set_map)
  have again: "line_consumptions tbl' c d line = Inr []"
    if c: "c \<in> set contracts" and l: "line \<in> set (lines c)" for c line
  proof -
    from s1 c l obtain cs where lc: "line_consumptions tbl c d line = Inr cs"
      and sub: "set cs \<subseteq> set out"
      by blast
    note own = line_consumptions_contract_line [OF lc]
    have new: "{x \<in> set out. contract_line x = line_id line} = set cs"
    proof (intro equalityI subsetI)
      fix x assume "x \<in> {x \<in> set out. contract_line x = line_id line}"
      then have xo: "x \<in> set out" and xl: "contract_line x = line_id line" by simp_all
      from s2 xo obtain c' line' cs' where c': "c' \<in> set contracts"
        "line' \<in> set (lines c')" "line_consumptions tbl c' d line' = Inr cs'" "x \<in> set cs'"
        by blast
      from line_consumptions_contract_line [OF c'(3)] c'(4)
      have "contract_line x = line_id line'" by blast
      with xl have "line_id line = line_id line'" by simp
      from distinct_line_ids [OF assms(2) c l c'(1,2) this]
      have "c = c'" "line = line'" by simp_all
      with c'(3,4) lc show "x \<in> set cs" by simp
    next
      fix x assume "x \<in> set cs"
      with sub own show "x \<in> {x \<in> set out. contract_line x = line_id line}" by blast
    qed
    let ?P = "\<lambda>row. contract_line (snd row) = line_id line"
    have "(end_period_date \<circ> snd) ` {row \<in> set (create_rows tbl out). ?P row}
            = end_period_date ` {x \<in> snd ` set (create_rows tbl out).
                                   contract_line x = line_id line}"
      by force
    also have "\<dots> = end_period_date ` set cs"
      by (simp only: snd_created new)
    finally have created: "(end_period_date \<circ> snd) ` {row \<in> set (create_rows tbl out). ?P row}
            = end_period_date ` set cs" .
    have "set (map (end_period_date \<circ> snd) (filter ?P tbl'))
        = set (map (end_period_date \<circ> snd) (filter ?P tbl))
          \<union> (end_period_date \<circ> snd) ` {row \<in> set (create_rows tbl out). ?P row}"
      unfolding t' by (simp only: filter_append map_append set_append set_map set_filter)
    then have dates: "set (map (end_period_date \<circ> snd) (filter ?P tbl'))
        = set (map (end_period_date \<circ> snd) (filter ?P tbl)) \<union> end_period_date ` set cs"
      by (simp only: created)
    from line_consumptions_again [OF lc dates dmax] show ?thesis .
  qed
  have "contracts_loop today tbl' contracts d = Inr []"
  proof (rule contracts_loop_Nil, intro ballI)
    fix c line assume "c \<in> set contracts" and "line \<in> set (lines c)"
    then show "line_consumptions tbl' c d line = Inr []" by (rule again)
  qed
  with dd ad show ?thesis
    by (simp add: consume_def create_rows_def)
qed

theorem consume_again_creates_nothing_witness:
  "consume 0 [] [example_contract] (Some 737515)
     = Inr ([(1, example_consumption 737425 737455 737455),
             (2, example_consumption 737456 737484 737515)],
            [(1, example_consumption 737425 737455 737455),
             (2, example_consumption 737456 737484 737515)])
   \<and> distinct (map line_id (concat (map lines [example_contract])))
   \<and> consume 0 [(1, example_consumption 737425 737455 737455),
                 (2, example_consumption 737456 737484 737515)]
        [example_contract] (Some 737515)
     = Inr ([], [(1, example_consumption 737425 737455 737455),
                 (2, example_consumption 737456 737484 737515)])"
proof -
  have a: "consume 0 [] [example_contract] (Some 737515)
     = Inr ([(1, example_consumption 737425 737455 737455),
             (2, example_consumption 737456 737484 737515)],
            [(1, example_consumption 737425 737455 737455),
             (2, example_consumption 737456 737484 737515)])"
    by (rule example_consume_2020)
  have b: "distinct (map line_id (concat (map lines [example_contract])))"
    by (simp add: example_fields)
  note c = consume_again_creates_nothing [OF a b]
  show ?thesis
    by (rule conjI [OF a], rule conjI [OF b c])
qed

subsection \<open>Validation of the start date\<close>

lemma after_2020:
  "rr_after \<lparr>rr_freq = MONTHLY, rr_dtstart = 737425, rr_interval = Suc 0\<rparr> 737425
     = Some 737456"
  by (simp add: rrule_defs calendar_defs)

text \<open>
  C9. For a contract with a recurrence rule \<open>r\<close> whose first occurrence strictly after
  the start-period date is \<open>d\<close>, validation raises the user error
  \<open>start_date_not_valid\<close> exactly when the start date is outside
  \<open>start_period_date \<le> start_date < d\<close>, and passes exactly when it is inside.
\<close>

theorem validate_start_date_iff:
  assumes "contract_rrule self = Inr r"
    and "rr_after r (start_period_date self) = Some d"
  shows "(validate [self] = Inl (UserError ''start_date_not_valid''))
           = (\<not> (start_period_date self \<le> start_date self \<and> start_date self < d))
         \<and> (validate [self] = Inr ())
           = (start_period_date self \<le> start_date self \<and> start_date self < d)"
  using assms by (simp add: check_start_date_def todatetime_def)

theorem validate_start_date_iff_witness:
  "contract_rrule example_contract
     = Inr \<lparr>rr_freq = MONTHLY, rr_dtstart = 737425, rr_interval = Suc 0\<rparr>
   \<and> rr_after \<lparr>rr_freq = MONTHLY, rr_dtstart = 737425, rr_interval = Suc 0\<rparr>
        (start_period_date example_contract) = Some 737456
   \<and> validate [example_contract] = Inr ()
   \<and> validate [example_contract\<lparr>start_date := 737456\<rparr>]
        = Inl (UserError ''start_date_not_valid'')"
proof -
  have a: "rr_after \<lparr>rr_freq = MONTHLY, rr_dtstart = 737425, rr_interval = Suc 0\<rparr>
        (start_period_date example_contract) = Some 737456"
    by (simp add: example_fields after_2020)
  have r2: "contract_rrule (example_contract\<lparr>start_date := 737456\<rparr>)
     = Inr \<lparr>rr_freq = MONTHLY, rr_dtstart = 737425, rr_interval = Suc 0\<rparr>"
    using example_rrule by (simp add: contract_rrule_def rrule_values_def)
  have a2: "rr_after \<lparr>rr_freq = MONTHLY, rr_dtstart = 737425, rr_interval = Suc 0\<rparr>
        (start_period_date (example_contract\<lparr>start_date := 737456\<rparr>)) = Some 737456"
    by (simp add: example_fields after_2020)
  have v1: "validate [example_contract] = Inr ()"
    using validate_start_date_iff [OF example_rrule a] by (simp add: example_fields)
  have v2: "validate [example_contract\<lparr>start_date := 737456\<rparr>]
        = Inl (UserError ''start_date_not_valid'')"
    using validate_start_date_iff [OF r2 a2] by (simp add: example_fields)
  show ?thesis
    by (rule conjI [OF example_rrule], rule conjI [OF a], rule conjI [OF v1 v2])
qed

subsection \<open>The quantity of an invoice line\<close>

definition example_uom_round :: "rat \<Rightarrow> rat \<Rightarrow> rat" where
  "example_uom_round number precision = of_int (round (number / precision)) * precision"

text \<open>
  A database with two contracts of the same party, company and currency: the example
  contract with its line 1, and a second contract with a line 2. Consumptions 1 and 2
  are those of January and February 2020 for line 1, consumption 3 is that of January
  for line 2; 1 and 3 have the same invoice date.
\<close>

definition example_contract2 :: contract where
  "example_contract2 = example_contract\<lparr>contract_id := 2,
     lines := [example_line\<lparr>line_id := 2\<rparr>]\<rparr>"

definition example_db :: database where
  "example_db = \<lparr>db_contracts = [example_contract, example_contract2],
     db_consumptions = [(1, example_consumption 737425 737455 737455),
                        (2, example_consumption 737456 737484 737515),
                        (3, (example_consumption 737425 737455 737455)\<lparr>contract_line := 2\<rparr>)],
     db_invoice_lines = [], db_invoices = [], db_journals = [(1, ''revenue'')],
     db_properties = [(''product.template'', 7)]\<rparr>"

lemma example_browse_line: "browse_line example_db (Suc 0) = Some (example_contract, example_line)"
  by (simp add: browse_line_def example_db_def example_fields)

lemma example_db_fields:
  "db_properties example_db = [(''product.template'', 7)]"
  "db_consumptions example_db
     = [(1, example_consumption 737425 737455 737455),
        (2, example_consumption 737456 737484 737515),
        (3, (example_consumption 737425 737455 737455)\<lparr>contract_line := 2\<rparr>)]"
  "db_invoice_lines example_db = []" "db_invoices example_db = []"
  "db_journals example_db = [(1, ''revenue'')]"
  by (simp_all add: example_db_def)

lemma seconds_ratio:
  "(of_int (86400 * a) / of_int (86400 * b) :: rat) = of_int a / of_int b"
  by simp

lemma compute_quantity_Inr:
  assumes "compute_quantity self = Inr q"
  shows "\<exists>e s ep ip.
           cons_end_date self = Some e \<and> cons_start_date self = Some s
           \<and> end_period_date self = Some ep \<and> init_period_date self = Some ip
           \<and> ep \<noteq> ip \<and> q = of_int (e - s) / of_int (ep - ip)"
proof -
  from assms obtain e s ep ip where d: "cons_end_date self = Some e"
    "cons_start_date self = Some s" "end_period_date self = Some ep"
    "init_period_date self = Some ip"
    by (auto simp: compute_quantity_def split: option.splits)
  from assms d have ne: "ep \<noteq> ip"
    by (auto simp: compute_quantity_def split: if_splits)
  from assms d ne have "q = of_int (86400 * (e - s)) / of_int (86400 * (ep - ip))"
    by (simp add: compute_quantity_def del: of_int_mult of_int_diff)
  then have "q = of_int (e - s) / of_int (ep - ip)"
    by (simp only: seconds_ratio)
  with d ne show ?thesis by blast
qed

lemma get_invoice_line_Inr:
  assumes "get_invoice_line uom_round db self = Inr il"
  shows "\<exists>q. compute_quantity self = Inr q
           \<and> il_unit il = map_option default_uom_rounding (il_product il)
           \<and> il_quantity il = uom_round q (case il_unit il of Some r \<Rightarrow> r | None \<Rightarrow> 1)"
  using assms
  by (auto simp: get_invoice_line_def Let_def
      split: option.splits sum.splits prod.splits)

text \<open>
  What the code computes where it returns a line: the consumption has its four dates, its
  period span \<open>end_period_date - init_period_date\<close> is not zero, and the quantity is the
  host's rounding of the ratio of \<open>end_date - start_date\<close> to the period span, at the
  rounding of the product's unit (1 without a product); when the two spans are equal the
  ratio is exactly 1.
\<close>

theorem invoice_line_quantity:
  assumes "get_invoice_line uom_round db self = Inr il"
  shows "\<exists>e s ep ip.
           cons_end_date self = Some e \<and> cons_start_date self = Some s
           \<and> end_period_date self = Some ep \<and> init_period_date self = Some ip
           \<and> ep \<noteq> ip
           \<and> il_unit il = map_option default_uom_rounding (il_product il)
           \<and> il_quantity il
               = uom_round (of_int (e - s) / of_int (ep - ip))
                   (case il_unit il of Some r \<Rightarrow> r | None \<Rightarrow> 1)
           \<and> (e - s = ep - ip \<longrightarrow>
                il_quantity il = uom_round 1 (case il_unit il of Some r \<Rightarrow> r | None \<Rightarrow> 1))"
proof -
  from get_invoice_line_Inr [OF assms] obtain q where q: "compute_quantity self = Inr q"
    and u: "il_unit il = map_option default_uom_rounding (il_product il)"
    and iq: "il_quantity il = uom_round q (case il_unit il of Some r \<Rightarrow> r | None \<Rightarrow> 1)"
    by blast
  from compute_quantity_Inr [OF q] obtain e s ep ip where d: "cons_end_date self = Some e"
    "cons_start_date self = Some s" "end_period_date self = Some ep"
    "init_period_date self = Some ip" "ep \<noteq> ip"
    and qe: "q = of_int (e - s) / of_int (ep - ip)"
    by blast
  have iq1: "il_quantity il = uom_round (of_int (e - s) / of_int (ep - ip))
                 (case il_unit il of Some r \<Rightarrow> r | None \<Rightarrow> 1)"
    using iq qe by (simp only:)
  have iq2: "e - s = ep - ip \<longrightarrow>
               il_quantity il = uom_round 1 (case il_unit il of Some r \<Rightarrow> r | None \<Rightarrow> 1)"
  proof
    assume "e - s = ep - ip"
    with d(5) qe have "q = 1" by simp
    with iq show "il_quantity il = uom_round 1 (case il_unit il of Some r \<Rightarrow> r | None \<Rightarrow> 1)"
      by (simp only:)
  qed
  from d u iq1 iq2 show ?thesis by blast
qed

definition example_invoice_line :: invoice_line where
  "example_invoice_line = \<lparr>il_type = ''line'', il_origin = 1, il_company = 1,
     il_currency = 1, il_product = None,
     il_description = (''hosting'', Some 737425, Some 737455), il_unit_price = 10,
     il_party = example_party, il_unit = None, il_account = Some 7, il_taxes = [],
     il_invoice_type = ''out_invoice'', il_quantity = 1\<rparr>"

lemma example_get_invoice_line:
  "get_invoice_line example_uom_round example_db (example_consumption 737425 737455 737455)
     = Inr example_invoice_line"
  by (simp add: get_invoice_line_def example_consumption_def get_consumption_def
      example_fields example_browse_line example_db_fields compute_quantity_def
      example_line_def example_invoice_line_def example_uom_round_def example_contract_def)

theorem invoice_line_quantity_witness:
  "get_invoice_line example_uom_round example_db (example_consumption 737425 737455 737455)
     = Inr example_invoice_line
   \<and> il_quantity example_invoice_line = example_uom_round 1 1
   \<and> example_uom_round 1 1 = 1"
proof -
  from invoice_line_quantity [OF example_get_invoice_line]
  have q: "il_quantity example_invoice_line = example_uom_round 1 1"
    by (simp add: example_consumption_def get_consumption_def example_invoice_line_def)
  have r: "example_uom_round 1 1 = 1"
    by (simp add: example_uom_round_def)
  show ?thesis
    by (rule conjI [OF example_get_invoice_line], rule conjI [OF q r])
qed

text \<open>
  C7. The claim: for every consumption the quantity is the rounded ratio of the
  consumption span to the period span, and for a full-period consumption the ratio is 1.
  The code at a consumption of the module's own making: a daily contract generates
  consumptions of one day, whose start, end, period start and period end are the same
  date. Such a consumption covers its whole period, so the claim gives it the ratio 1;
  \<open>get_invoice_line\<close> divides its zero span by its zero period and raises
  ZeroDivisionError.
\<close>

theorem zero_period_ZeroDivisionError:
  "get_consumptions 0 [] (example_contract\<lparr>freq := Some daily\<rparr>) (Some 737427)
     = Inr [example_consumption 737425 737425 737425]
   \<and> get_invoice_line example_uom_round example_db (example_consumption 737425 737425 737425)
     = Inl ZeroDivisionError"
proof -
  have r: "contract_rrule (example_contract\<lparr>freq := Some daily\<rparr>)
     = Inr \<lparr>rr_freq = DAILY, rr_dtstart = 737425, rr_interval = Suc 0\<rparr>"
    by (simp add: example_contract_def contract_rrule_def rrule_values_def rrule_new_def
      freq_mapping_def todatetime_def)
  have b: "rr_between \<lparr>rr_freq = DAILY, rr_dtstart = 737425, rr_interval = Suc 0\<rparr>
             737425 737427 = [737426]"
    by (simp add: rrule_defs calendar_defs)
  have g: "get_consumptions 0 [] (example_contract\<lparr>freq := Some daily\<rparr>) (Some 737427)
     = Inr [example_consumption 737425 737425 737425]"
    by (simp add: get_consumptions_def example_fields line_consumptions_def
      last_consumption_date_def last_consumption_invoice_date_def
      get_last_consumption_date_def sql_max_def add_days_def max_ordinal_def todatetime_def
      r b example_consumption_def)
  have i: "get_invoice_line example_uom_round example_db
             (example_consumption 737425 737425 737425) = Inl ZeroDivisionError"
    by (simp add: get_invoice_line_def example_consumption_def get_consumption_def
        example_fields example_browse_line example_db_fields compute_quantity_def
        example_line_def)
  show ?thesis by (rule conjI [OF g i])
qed

subsection \<open>Invoicing: the links between consumptions and invoice lines\<close>















lemma example_invoice_line_sel:
  "il_party example_invoice_line = example_party" "il_company example_invoice_line = Suc 0"
  "il_currency example_invoice_line = Suc 0"
  "il_invoice_type example_invoice_line = ''out_invoice''"
  "party_id example_party = Suc 0" "address_get_invoice example_party = None"
  "customer_payment_term example_party = None" "account_receivable example_party = None"
  by (simp_all add: example_invoice_line_def example_party_def)






subsection \<open>Invoicing: one invoice for each grouping tuple\<close>

lemma groupby_keys: "fst ` set (groupby f xs) = f ` set xs"
proof (induction f xs rule: groupby.induct)
  case (1 f)
  then show ?case by simp
next
  case (2 f x xs)
  let ?P = "\<lambda>y. f y = f x"
  have A: "y \<in> set xs" if "y \<in> set (dropWhile ?P xs)" for y
    using that by (rule set_dropWhileD)
  have B: "f y = f x \<or> y \<in> set (dropWhile ?P xs)" if "y \<in> set xs" for y
  proof -
    from that have "y \<in> set (takeWhile ?P xs @ dropWhile ?P xs)"
      by (simp only: takeWhile_dropWhile_id)
    then have "y \<in> set (takeWhile ?P xs) \<or> y \<in> set (dropWhile ?P xs)"
      by (simp only: set_append Un_iff)
    then show ?thesis using set_takeWhileD [of y ?P xs] by blast
  qed
  have "fst ` set (groupby f (x # xs)) = insert (f x) (fst ` set (groupby f (dropWhile ?P xs)))"
    by simp
  also have "\<dots> = insert (f x) (f ` set (dropWhile ?P xs))"
    by (simp only: "2.IH")
  also have "\<dots> = f ` set (x # xs)"
    using A B by auto
  finally show ?case .
qed

lemma dropWhile_key_greater:
  fixes f :: "'a \<Rightarrow> 'k::linorder"
  shows "sorted (map f xs) \<Longrightarrow> \<forall>y \<in> set xs. k \<le> f y \<Longrightarrow>
     \<forall>y \<in> set (dropWhile (\<lambda>y. f y = k) xs). k < f y"
proof (induction xs)
  case Nil
  then show ?case by simp
next
  case (Cons y ys)
  from Cons.prems(1) have s: "sorted (map f ys)" and ge: "\<forall>z \<in> set ys. f y \<le> f z"
    by simp_all
  from Cons.prems(2) have ky: "k \<le> f y" and kys: "\<forall>z \<in> set ys. k \<le> f z"
    by simp_all
  show ?case
  proof (cases "f y = k")
    case True
    then have "dropWhile (\<lambda>y. f y = k) (y # ys) = dropWhile (\<lambda>y. f y = k) ys" by simp
    with Cons.IH [OF s kys] show ?thesis by (simp only:)
  next
    case False
    then have d: "dropWhile (\<lambda>y. f y = k) (y # ys) = y # ys" by simp
    have lt: "k < f y"
      using False ky by (intro order.not_eq_order_implies_strict) auto
    have "\<forall>z \<in> set (y # ys). k < f z"
    proof
      fix z assume "z \<in> set (y # ys)"
      then have "z = y \<or> z \<in> set ys" by simp
      then show "k < f z"
      proof
        assume "z = y" with lt show ?thesis by simp
      next
        assume "z \<in> set ys"
        with ge have "f y \<le> f z" by blast
        with lt show ?thesis by (rule less_le_trans)
      qed
    qed
    with d show ?thesis by (simp only:)
  qed
qed

lemma sorted_map_dropWhile:
  fixes f :: "'a \<Rightarrow> 'k::linorder"
  shows "sorted (map f xs) \<Longrightarrow> sorted (map f (dropWhile P xs))"
proof (induction xs)
  case Nil
  then show ?case by simp
next
  case (Cons y ys)
  from Cons.prems have s: "sorted (map f ys)" by simp
  show ?case
  proof (cases "P y")
    case True
    with Cons.IH [OF s] show ?thesis by simp
  next
    case False
    with Cons.prems show ?thesis by simp
  qed
qed

lemma filter_key_split:
  "filter (\<lambda>y. f y = k) xs =
     filter (\<lambda>y. f y = k) (takeWhile (\<lambda>y. f y = k') xs)
     @ filter (\<lambda>y. f y = k) (dropWhile (\<lambda>y. f y = k') xs)"
  by (simp only: filter_append [symmetric] takeWhile_dropWhile_id)

text \<open>The group of the first key, and the groups of the other keys.\<close>

lemma filter_first_key:
  assumes "\<forall>y \<in> set (dropWhile (\<lambda>y. f y = k) xs). f y \<noteq> k"
  shows "filter (\<lambda>y. f y = k) xs = takeWhile (\<lambda>y. f y = k) xs"
proof -
  let ?P = "\<lambda>y. f y = k"
  have f1: "filter ?P (dropWhile ?P xs) = []"
    using assms filter_empty_conv [of ?P "dropWhile ?P xs"] by blast
  have "\<forall>y \<in> set (takeWhile ?P xs). ?P y"
    using set_takeWhileD [of _ ?P xs] by blast
  then have f2: "filter ?P (takeWhile ?P xs) = takeWhile ?P xs"
    using filter_id_conv [of ?P "takeWhile ?P xs"] by blast
  have "filter ?P xs = filter ?P (takeWhile ?P xs) @ filter ?P (dropWhile ?P xs)"
    by (rule filter_key_split)
  then show ?thesis by (simp only: f1 f2 append_Nil2)
qed

lemma filter_other_key:
  assumes "k' \<noteq> k"
  shows "filter (\<lambda>y. f y = k') xs = filter (\<lambda>y. f y = k') (dropWhile (\<lambda>y. f y = k) xs)"
proof -
  have "\<forall>y \<in> set (takeWhile (\<lambda>y. f y = k) xs). \<not> f y = k'"
    using assms set_takeWhileD [of _ "\<lambda>y. f y = k" xs] by blast
  then have e: "filter (\<lambda>y. f y = k') (takeWhile (\<lambda>y. f y = k) xs) = []"
    using filter_empty_conv [of "\<lambda>y. f y = k'" "takeWhile (\<lambda>y. f y = k) xs"] by blast
  have "filter (\<lambda>y. f y = k') xs
          = filter (\<lambda>y. f y = k') (takeWhile (\<lambda>y. f y = k) xs)
            @ filter (\<lambda>y. f y = k') (dropWhile (\<lambda>y. f y = k) xs)"
    by (rule filter_key_split)
  then show ?thesis by (simp only: e append_Nil)
qed

lemma groupby_sorted:
  fixes f :: "'a \<Rightarrow> 'k::linorder"
  shows "sorted (map f xs) \<Longrightarrow>
     distinct (map fst (groupby f xs))
     \<and> (\<forall>g \<in> set (groupby f xs). snd g = filter (\<lambda>y. f y = fst g) xs)"
proof (induction f xs rule: groupby.induct)
  case (1 f)
  then show ?case by simp
next
  case (2 f x xs)
  let ?P = "\<lambda>y. f y = f x"
  let ?rest = "dropWhile ?P xs"
  from "2.prems" have sx: "sorted (map f xs)" and ge: "\<forall>y \<in> set xs. f x \<le> f y"
    by simp_all
  have gt: "\<forall>y \<in> set ?rest. f x < f y"
    by (rule dropWhile_key_greater [OF sx ge])
  have ih1: "distinct (map fst (groupby f ?rest))"
    and ih2: "\<forall>g \<in> set (groupby f ?rest). snd g = filter (\<lambda>y. f y = fst g) ?rest"
    using "2.IH" [OF sorted_map_dropWhile [OF sx]] by blast+
  have keys: "f x < k" if "k \<in> fst ` set (groupby f ?rest)" for k
  proof -
    from that have "k \<in> f ` set ?rest" by (simp only: groupby_keys)
    with gt show "f x < k" by blast
  qed
  have notin: "f x \<notin> fst ` set (groupby f ?rest)"
  proof
    assume "f x \<in> fst ` set (groupby f ?rest)"
    then have "f x < f x" by (rule keys)
    then show False by simp
  qed
  have ne: "\<forall>y \<in> set ?rest. f y \<noteq> f x"
  proof
    fix y assume "y \<in> set ?rest"
    with gt have "f x < f y" by blast
    then show "f y \<noteq> f x" by simp
  qed
  have "filter ?P xs = takeWhile ?P xs"
    using ne by (rule filter_first_key)
  then have first: "filter ?P (x # xs) = x # takeWhile ?P xs" by simp
  have others: "snd g = filter (\<lambda>y. f y = fst g) (x # xs)"
    if g: "g \<in> set (groupby f ?rest)" for g
  proof -
    from g have "fst g \<in> fst ` set (groupby f ?rest)" by (rule imageI)
    then have "f x < fst g" by (rule keys)
    then have n1: "fst g \<noteq> f x" and n2: "f x \<noteq> fst g" by simp_all
    from ih2 g have "snd g = filter (\<lambda>y. f y = fst g) ?rest" by blast
    also have "\<dots> = filter (\<lambda>y. f y = fst g) xs"
      by (rule filter_other_key [OF n1, symmetric])
    also have "\<dots> = filter (\<lambda>y. f y = fst g) (x # xs)"
      using n2 by simp
    finally show ?thesis .
  qed
  have g: "groupby f (x # xs) = (f x, x # takeWhile ?P xs) # groupby f ?rest"
    by simp
  have nin: "f x \<notin> set (map fst (groupby f ?rest))"
    using notin by (simp only: set_map simp_thms)
  have "distinct (f x # map fst (groupby f ?rest))"
    using nin ih1 by (simp only: distinct.simps simp_thms)
  then have d: "distinct (map fst (groupby f (x # xs)))"
    by (simp only: g list.map fst_conv)
  have a: "\<forall>g \<in> set (groupby f (x # xs)). snd g = filter (\<lambda>y. f y = fst g) (x # xs)"
  proof
    fix h assume "h \<in> set (groupby f (x # xs))"
    then have "h = (f x, x # takeWhile ?P xs) \<or> h \<in> set (groupby f ?rest)"
      by (simp only: g set_simps insert_iff)
    then show "snd h = filter (\<lambda>y. f y = fst h) (x # xs)"
    proof
      assume "h = (f x, x # takeWhile ?P xs)"
      with first show ?thesis by (simp only: fst_conv snd_conv)
    next
      assume "h \<in> set (groupby f ?rest)"
      then show ?thesis by (rule others)
    qed
  qed
  from d a show ?case by (rule conjI)
qed


text \<open>
  The values of the grouping tuple on an invoice: \<open>_get_invoice\<close> builds the invoice
  from \<^verbatim>\<open>dict(keys)\<close>.
\<close>

definition inv_key :: "invoice \<Rightarrow> invoice_key" where
  "inv_key i = (inv_party i, inv_company i, inv_currency i, inv_type i, inv_invoice_date i)"

lemma update_fresh_key: "k \<notin> fst ` set al \<Longrightarrow> AList.update k v al = al @ [(k, v)]"
  by (induction al) auto

lemma save_lines_entries:
  "save_lines u db ids tbl ls tw = Inr (tbl', ls', tw') \<Longrightarrow> distinct ids \<Longrightarrow>
   set ids \<inter> fst ` set ls = {} \<Longrightarrow>
     \<exists>new. tbl' = tbl @ new \<and> length new = length ids \<and> ls' = ls @ zip ids new
        \<and> (\<forall>e \<in> set (zip ids new). \<exists>c. map_of (db_consumptions db) (fst e) = Some c
              \<and> get_invoice_line u db c = Inr (snd (snd e)))"
proof (induction ids arbitrary: tbl ls tw)
  case Nil
  then show ?case by simp
next
  case (Cons cid rest)
  let ?lid = "fresh_id (map fst tbl)"
  from Cons.prems(1) obtain c line where c: "map_of (db_consumptions db) cid = Some c"
    and line: "get_invoice_line u db c = Inr line"
    and rec: "save_lines u db rest (tbl @ [(?lid, line)])
                (AList.update cid (?lid, line) ls) (tw @ [(cid, ?lid)]) = Inr (tbl', ls', tw')"
    by (auto simp: Let_def split: option.splits sum.splits)
  from Cons.prems(3) have "cid \<notin> fst ` set ls" by auto
  then have upd: "AList.update cid (?lid, line) ls = ls @ [(cid, ?lid, line)]"
    by (rule update_fresh_key)
  from Cons.prems(2) have d: "distinct rest" and nin: "cid \<notin> set rest" by simp_all
  from Cons.prems(3) nin have disj: "set rest \<inter> fst ` set (ls @ [(cid, ?lid, line)]) = {}"
    by auto
  from rec have rec': "save_lines u db rest (tbl @ [(?lid, line)])
                (ls @ [(cid, ?lid, line)]) (tw @ [(cid, ?lid)]) = Inr (tbl', ls', tw')"
    by (simp only: upd)
  from Cons.IH [OF rec' d disj] obtain new where new:
    "tbl' = (tbl @ [(?lid, line)]) @ new" "length new = length rest"
    "ls' = (ls @ [(cid, ?lid, line)]) @ zip rest new"
    "\<forall>e \<in> set (zip rest new). \<exists>c. map_of (db_consumptions db) (fst e) = Some c
              \<and> get_invoice_line u db c = Inr (snd (snd e))"
    by blast
  let ?new = "(?lid, line) # new"
  have "tbl' = tbl @ ?new" using new(1) by simp
  moreover have "length ?new = length (cid # rest)" using new(2) by simp
  moreover have "ls' = ls @ zip (cid # rest) ?new" using new(3) by simp
  moreover have "\<forall>e \<in> set (zip (cid # rest) ?new).
       \<exists>c. map_of (db_consumptions db) (fst e) = Some c
              \<and> get_invoice_line u db c = Inr (snd (snd e))"
    using new(4) c line by simp
  ultimately show ?case by blast
qed

lemma inv_key_get_invoice: "inv_key (get_invoice db k ls) = k"
  by (simp add: inv_key_def get_invoice_def Let_def split: prod.splits)

lemma inv_lines_get_invoice: "inv_lines (get_invoice db k ls) = map (\<lambda>x. fst (snd x)) ls"
  by (simp add: get_invoice_def Let_def split: prod.splits)

lemma create_rows_Nil: "create_rows tbl [] = []"
  by (simp add: create_rows_def)

text \<open>
  C8. When \<open>invoice\<close> succeeds on a list of distinct consumptions, it has saved one
  invoice line for each consumption of the list (the line \<open>get_invoice_line\<close> builds
  for it), and it has created invoices whose grouping tuples (party, company, currency,
  invoice type, invoice date) are pairwise distinct and are exactly the tuples of the
  saved lines; the lines of each invoice are exactly the saved lines with the invoice's
  tuple, each once. The order of the lines inside an invoice is that of the dictionary's
  items and is left out of the statement.
\<close>

theorem invoice_one_per_key:
  assumes "invoice uom_round db ids = Inr db'" and "distinct ids"
  shows "\<exists>new invs.
       db_invoice_lines db' = db_invoice_lines db @ new \<and> length new = length ids
     \<and> (\<forall>e \<in> set (zip ids new). \<exists>c. map_of (db_consumptions db) (fst e) = Some c
            \<and> get_invoice_line uom_round db c = Inr (snd (snd e)))
     \<and> db_invoices db' = db_invoices db @ create_rows (db_invoices db) invs
     \<and> distinct (map inv_key invs)
     \<and> set (map inv_key invs) = group_invoice_key db ` set (zip ids new)
     \<and> (\<forall>i \<in> set invs.
          set (inv_lines i)
            = (\<lambda>e. fst (snd e)) ` {e \<in> set (zip ids new). group_invoice_key db e = inv_key i}
          \<and> length (inv_lines i)
            = length (filter (\<lambda>e. group_invoice_key db e = inv_key i) (zip ids new)))"
proof -
  let ?K = "group_invoice_key db"
  from assms(1) obtain tbl' ls' tw' where
    sl: "save_lines uom_round db ids (db_invoice_lines db) [] [] = Inr (tbl', ls', tw')"
    by (auto simp: invoice_def split: sum.splits)
  from save_lines_entries [OF sl assms(2)] obtain new where new:
    "tbl' = db_invoice_lines db @ new" "length new = length ids" "ls' = zip ids new"
    and ent: "\<forall>e \<in> set (zip ids new). \<exists>c. map_of (db_consumptions db) (fst e) = Some c
              \<and> get_invoice_line uom_round db c = Inr (snd (snd e))"
    by auto
  let ?G = "groupby ?K (sort_key ?K ls')"
  let ?invs = "map (\<lambda>g. get_invoice db (fst g) (snd g)) ?G"
  have srt: "sorted (map ?K (sort_key ?K ls'))" by (rule sorted_sort_key)
  from groupby_sorted [OF srt]
  have dG: "distinct (map fst ?G)"
    and gG: "\<forall>g \<in> set ?G. snd g = filter (\<lambda>y. ?K y = fst g) (sort_key ?K ls')"
    by blast+
  have grp: "snd g = filter (\<lambda>y. ?K y = fst g) ls'" if "g \<in> set ?G" for g
  proof -
    from gG that have "snd g = filter (\<lambda>y. ?K y = fst g) (sort_key ?K ls')" by blast
    then show ?thesis by (simp only: sort_key_stable)
  qed
  have keys: "map inv_key ?invs = map fst ?G"
    by (simp add: inv_key_get_invoice comp_def)
  have kset: "set (map fst ?G) = ?K ` set ls'"
    by (simp only: set_map groupby_keys set_sort)
  have lines: "inv_lines i = map (\<lambda>x. fst (snd x)) (filter (\<lambda>e. ?K e = inv_key i) ls')"
    if "i \<in> set ?invs" for i
  proof -
    from that obtain g where g: "g \<in> set ?G" and i: "i = get_invoice db (fst g) (snd g)"
      by auto
    from i have k: "inv_key i = fst g" by (simp only: inv_key_get_invoice)
    from i have "inv_lines i = map (\<lambda>x. fst (snd x)) (snd g)"
      by (simp only: inv_lines_get_invoice)
    also have "snd g = filter (\<lambda>y. ?K y = fst g) ls'" using g by (rule grp)
    finally show ?thesis by (simp only: k)
  qed
  have c5: "distinct (map inv_key ?invs)" using dG by (simp only: keys)
  have "set (map inv_key ?invs) = set (map fst ?G)" by (simp only: keys)
  also have "\<dots> = ?K ` set ls'" by (rule kset)
  also have "\<dots> = ?K ` set (zip ids new)" by (simp only: new(3))
  finally have c6: "set (map inv_key ?invs) = ?K ` set (zip ids new)" .
  have c7: "\<forall>i \<in> set ?invs.
          set (inv_lines i)
            = (\<lambda>e. fst (snd e)) ` {e \<in> set (zip ids new). ?K e = inv_key i}
          \<and> length (inv_lines i)
            = length (filter (\<lambda>e. ?K e = inv_key i) (zip ids new))"
  proof
    fix i assume "i \<in> set ?invs"
    then have l: "inv_lines i
        = map (\<lambda>x. fst (snd x)) (filter (\<lambda>e. ?K e = inv_key i) (zip ids new))"
      using lines new(3) by simp
    have "set (inv_lines i) = (\<lambda>e. fst (snd e)) ` {e \<in> set (zip ids new). ?K e = inv_key i}"
      unfolding l by (simp only: set_map set_filter)
    moreover have "length (inv_lines i)
            = length (filter (\<lambda>e. ?K e = inv_key i) (zip ids new))"
      unfolding l by simp
    ultimately show "set (inv_lines i)
            = (\<lambda>e. fst (snd e)) ` {e \<in> set (zip ids new). ?K e = inv_key i}
          \<and> length (inv_lines i)
            = length (filter (\<lambda>e. ?K e = inv_key i) (zip ids new))"
      by (rule conjI)
  qed
  show ?thesis
  proof (cases "ls' = []")
    case True
    with new(2,3) have e: "ids = []" "new = []" by (cases ids; cases new; simp)+
    from assms(1) sl True have "db' = db" by (simp add: invoice_def)
    with e show ?thesis
      by (intro exI [of _ "[]"]) (simp add: create_rows_Nil)
  next
    case False
    with assms(1) sl have il: "db_invoice_lines db' = tbl'"
      and inv: "db_invoices db' = db_invoices db @ create_rows (db_invoices db) ?invs"
      by (auto simp: invoice_def Let_def)
    from il new(1) have c1: "db_invoice_lines db' = db_invoice_lines db @ new" by simp
    from c1 new(2) ent inv c5 c6 c7 show ?thesis by blast
  qed
qed

text \<open>
  Consumptions 1 and 3 of the example database have the same party, company, currency,
  invoice type and invoice date: invoicing them creates invoice lines 1 and 2 and a
  single invoice that carries both.
\<close>

definition example_invoice_line2 :: invoice_line where
  "example_invoice_line2 = example_invoice_line\<lparr>il_origin := 2\<rparr>"

definition example_grouped_db :: database where
  "example_grouped_db = example_db
     \<lparr>db_invoice_lines := [(1, example_invoice_line), (2, example_invoice_line2)],
      db_invoices :=
        [(1, \<lparr>inv_party = 1, inv_company = 1, inv_currency = 1,
              inv_type = ''out_invoice'', inv_invoice_date = Some 737455,
              inv_invoice_address = None, inv_journal = Some 1, inv_payment_term = None,
              inv_account = None, inv_lines = [1, 2]\<rparr>)],
      db_consumptions :=
        [(1, (example_consumption 737425 737455 737455)\<lparr>invoice_line := Some 1\<rparr>),
         (2, example_consumption 737456 737484 737515),
         (3, (example_consumption 737425 737455 737455)
               \<lparr>contract_line := 2, invoice_line := Some 2\<rparr>)]\<rparr>"

lemma example_browse_line2:
  "browse_line example_db (Suc (Suc 0))
     = Some (example_contract2, example_line\<lparr>line_id := 2\<rparr>)"
  by (simp add: browse_line_def example_db_def example_contract2_def example_fields
      example_line_def)

lemma example_get_invoice_line2:
  "get_invoice_line example_uom_round example_db
     ((example_consumption 737425 737455 737455)\<lparr>contract_line := 2\<rparr>)
     = Inr example_invoice_line2"
  by (simp add: get_invoice_line_def example_consumption_def get_consumption_def
      example_fields example_browse_line2 example_db_fields compute_quantity_def
      example_line_def example_invoice_line_def example_invoice_line2_def
      example_uom_round_def example_contract_def example_contract2_def numeral_2_eq_2)

lemma example_invoice_line2_sel:
  "il_party example_invoice_line2 = example_party" "il_company example_invoice_line2 = Suc 0"
  "il_currency example_invoice_line2 = Suc 0"
  "il_invoice_type example_invoice_line2 = ''out_invoice''"
  by (simp_all add: example_invoice_line2_def example_invoice_line_def)


lemma example_save_lines_1_3: "save_lines example_uom_round example_db [Suc 0, 3] [] [] []
      = Inr ([(Suc 0, example_invoice_line), (Suc (Suc 0), example_invoice_line2)],
             [(Suc 0, Suc 0, example_invoice_line), (3, Suc (Suc 0), example_invoice_line2)],
             [(Suc 0, Suc 0), (3, Suc (Suc 0))])"
    by (simp add: example_db_fields example_get_invoice_line example_get_invoice_line2 fresh_id_def)

lemma example_key_1: "group_invoice_key example_db (Suc 0, Suc 0, example_invoice_line)
             = (Suc 0, Suc 0, Suc 0, ''out_invoice'', Some 737455)"
    by (simp add: group_invoice_key_def example_db_fields example_invoice_line_sel
        example_consumption_def get_consumption_def)

lemma example_key_3: "group_invoice_key example_db (3, Suc (Suc 0), example_invoice_line2)
             = (Suc 0, Suc 0, Suc 0, ''out_invoice'', Some 737455)"
    by (simp add: group_invoice_key_def example_db_fields example_invoice_line2_sel example_invoice_line_sel
        example_consumption_def get_consumption_def)


lemma sort_key_pair_eq: "f a = f b \<Longrightarrow> sort_key f [a, b] = [a, b]"
  by simp

lemma groupby_pair_eq: "f a = f b \<Longrightarrow> groupby f [a, b] = [(f a, [a, b])]"
  by simp

lemma example_get_invoice_1_3: "get_invoice example_db (Suc 0, Suc 0, Suc 0, ''out_invoice'', Some 737455)
           [(Suc 0, Suc 0, example_invoice_line), (3, Suc (Suc 0), example_invoice_line2)]
      = \<lparr>inv_party = 1, inv_company = 1, inv_currency = 1,
              inv_type = ''out_invoice'', inv_invoice_date = Some 737455,
              inv_invoice_address = None, inv_journal = Some 1, inv_payment_term = None,
              inv_account = None, inv_lines = [1, 2]\<rparr>"
  by (simp add: get_invoice_def example_db_fields example_invoice_line_sel)

lemma example_write_1_3: "foldl write_invoice_line (db_consumptions example_db) [(Suc 0, Suc 0), (3, Suc (Suc 0))]
     = [(1, (example_consumption 737425 737455 737455)\<lparr>invoice_line := Some 1\<rparr>),
         (2, example_consumption 737456 737484 737515),
         (3, (example_consumption 737425 737455 737455)
               \<lparr>contract_line := 2, invoice_line := Some 2\<rparr>)]"
  by (simp add: example_db_fields write_invoice_line_def)


lemma create_rows_single: "create_rows [] [i] = [(Suc 0, i)]"
  by (simp add: create_rows_def fresh_id_def)

lemma example_grouped_invoice:
  "invoice example_uom_round example_db [1, 3] = Inr example_grouped_db"
proof -
  let ?e1 = "(Suc 0, Suc 0, example_invoice_line)"
  let ?e3 = "(3::nat, Suc (Suc 0), example_invoice_line2)"
  let ?K = "group_invoice_key example_db"
  have kk: "?K ?e1 = ?K ?e3" by (simp only: example_key_1 example_key_3)
  have srt: "sort_key ?K [?e1, ?e3] = [?e1, ?e3]" using kk by (rule sort_key_pair_eq [of ?K ?e1 ?e3])
  have grp: "groupby ?K [?e1, ?e3]
      = [((Suc 0, Suc 0, Suc 0, ''out_invoice'', Some 737455), [?e1, ?e3])]"
    using groupby_pair_eq [of ?K ?e1 ?e3, OF kk] by (simp only: example_key_1)
  have "invoice example_uom_round example_db [Suc 0, 3]
      = Inr (example_db
          \<lparr>db_invoice_lines := [(Suc 0, example_invoice_line), (Suc (Suc 0), example_invoice_line2)],
           db_invoices := db_invoices example_db @ create_rows (db_invoices example_db)
             [get_invoice example_db (Suc 0, Suc 0, Suc 0, ''out_invoice'', Some 737455)
                [?e1, ?e3]],
           db_consumptions := foldl write_invoice_line (db_consumptions example_db)
             [(Suc 0, Suc 0), (3, Suc (Suc 0))]\<rparr>)"
    by (simp only: invoice_def example_db_fields(3) example_save_lines_1_3 sum.case prod.case list.distinct if_False Let_def
        srt grp list.map fst_conv snd_conv)
  then have "invoice example_uom_round example_db [Suc 0, 3]
      = Inr (example_db
          \<lparr>db_invoice_lines := [(Suc 0, example_invoice_line), (Suc (Suc 0), example_invoice_line2)],
           db_invoices := [(Suc 0, \<lparr>inv_party = 1, inv_company = 1, inv_currency = 1,
              inv_type = ''out_invoice'', inv_invoice_date = Some 737455,
              inv_invoice_address = None, inv_journal = Some 1, inv_payment_term = None,
              inv_account = None, inv_lines = [1, 2]\<rparr>)],
           db_consumptions :=
             [(1, (example_consumption 737425 737455 737455)\<lparr>invoice_line := Some 1\<rparr>),
              (2, example_consumption 737456 737484 737515),
              (3, (example_consumption 737425 737455 737455)
               \<lparr>contract_line := 2, invoice_line := Some 2\<rparr>)]\<rparr>)"
    by (simp only: example_get_invoice_1_3 example_write_1_3 example_db_fields(4) append_Nil create_rows_single)
  then show ?thesis
    by (simp only: example_grouped_db_def One_nat_def numeral_2_eq_2)
qed

theorem invoice_one_per_key_witness:
  "invoice example_uom_round example_db [1, 3] = Inr example_grouped_db
   \<and> distinct [1::nat, 3]
   \<and> map (inv_lines \<circ> snd) (db_invoices example_grouped_db) = [[1, 2]]
   \<and> (\<exists>new invs.
       db_invoice_lines example_grouped_db = db_invoice_lines example_db @ new
     \<and> length new = length [1::nat, 3]
     \<and> (\<forall>e \<in> set (zip [1, 3] new).
            \<exists>c. map_of (db_consumptions example_db) (fst e) = Some c
            \<and> get_invoice_line example_uom_round example_db c = Inr (snd (snd e)))
     \<and> db_invoices example_grouped_db
         = db_invoices example_db @ create_rows (db_invoices example_db) invs
     \<and> distinct (map inv_key invs)
     \<and> set (map inv_key invs) = group_invoice_key example_db ` set (zip [1, 3] new)
     \<and> (\<forall>i \<in> set invs.
          set (inv_lines i)
            = (\<lambda>e. fst (snd e)) `
                {e \<in> set (zip [1, 3] new). group_invoice_key example_db e = inv_key i}
          \<and> length (inv_lines i)
            = length (filter (\<lambda>e. group_invoice_key example_db e = inv_key i)
                (zip [1, 3] new))))"
proof -
  have a: "invoice example_uom_round example_db [1, 3] = Inr example_grouped_db"
    by (rule example_grouped_invoice)
  have b: "distinct [1::nat, 3]" by simp
  have c: "map (inv_lines \<circ> snd) (db_invoices example_grouped_db) = [[1, 2]]"
    by (simp add: example_grouped_db_def)
  note d = invoice_one_per_key [OF a b]
  show ?thesis
    by (rule conjI [OF a], rule conjI [OF b], rule conjI [OF c d])
qed

subsection \<open>Invoice dates of the generated consumptions\<close>








text \<open>
  A remark outside the statement above: with an interval above 1, \<open>get_invoice_date\<close>
  still steps by one period of the frequency, because it passes only the frequency of
  the contract's rule on. The example contract with interval 2 (occurrences 2020-01-01,
  2020-03-01, 2020-05-01) consumed up to 2020-05-02 (737547): the second consumption, of
  the period from 2020-03-01 to 2020-04-30, gets the invoice date 2020-03-29 (737513),
  one month after the previous one, where the contract's rule restarted at the previous
  invoice date gives 2020-04-29 (737544).
\<close>

lemma invoice_date_ignores_interval:
  "get_consumptions 0 [] (example_contract\<lparr>interval := Some 2\<rparr>) (Some 737547)
     = Inr [get_consumption example_line 737425 737484 737484 737425 737484,
            get_consumption example_line 737485 737545 737513 737485 737545]
   \<and> rr_after \<lparr>rr_freq = MONTHLY, rr_dtstart = 737425, rr_interval = 2\<rparr> 737484
       = Some 737485
   \<and> rr_after \<lparr>rr_freq = MONTHLY, rr_dtstart = 737484, rr_interval = 2\<rparr> 737484
       = Some 737544"
proof -
  have r: "contract_rrule (example_contract\<lparr>interval := Some 2\<rparr>)
     = Inr \<lparr>rr_freq = MONTHLY, rr_dtstart = 737425, rr_interval = 2\<rparr>"
    by (simp add: example_contract_def contract_rrule_def rrule_values_def rrule_new_def
        freq_mapping_def todatetime_def)
  have b: "rr_between \<lparr>rr_freq = MONTHLY, rr_dtstart = 737425, rr_interval = 2\<rparr>
             737425 737547 = [737485, 737546]"
    by (simp add: rrule_defs calendar_defs)
  have a: "rr_after \<lparr>rr_freq = MONTHLY, rr_dtstart = 737484, rr_interval = Suc 0\<rparr> 737484
             = Some 737513"
    by (simp add: rrule_defs calendar_defs)
  have i: "get_invoice_date (example_contract\<lparr>interval := Some 2\<rparr>) 737484 = Inr 737513"
    by (simp add: get_invoice_date_def r rrule_new_def todatetime_def a)
  have g: "get_consumptions 0 [] (example_contract\<lparr>interval := Some 2\<rparr>) (Some 737547)
     = Inr [get_consumption example_line 737425 737484 737484 737425 737484,
            get_consumption example_line 737485 737545 737513 737485 737545]"
    by (simp add: get_consumptions_def example_fields line_consumptions_def
        last_consumption_date_def last_consumption_invoice_date_def
        get_last_consumption_date_def sql_max_def add_days_def max_ordinal_def todatetime_def
        r b i)
  have c1: "rr_after \<lparr>rr_freq = MONTHLY, rr_dtstart = 737425, rr_interval = 2\<rparr> 737484
       = Some 737485"
    by (simp add: rrule_defs calendar_defs)
  have c2: "rr_after \<lparr>rr_freq = MONTHLY, rr_dtstart = 737484, rr_interval = 2\<rparr> 737484
       = Some 737544"
    by (simp add: rrule_defs calendar_defs)
  show ?thesis by (rule conjI [OF g], rule conjI [OF c1 c2])
qed

end
